theory Spec2Isabelle
  imports Main "HOL-Library.Word"
begin

section \<open>Strings\<close>

text \<open>
  A JavaScript string is a sequence of 16-bit code units. String literals of the source
  are written through \<open>js\<close>, which maps every character of an ASCII literal to its code
  unit. The empty string is the only falsy string.
\<close>

type_synonym jstring = "16 word list"

definition js :: "string \<Rightarrow> jstring" where
  "js s = map of_char s"

text \<open>
  \<open>String.prototype.trim\<close> removes, at both ends, the code units that ECMAScript calls
  WhiteSpace (TAB, VT, FF, ZWNBSP and the Unicode space separators) or LineTerminator
  (LF, CR, LS, PS).
\<close>

definition is_space :: "16 word \<Rightarrow> bool" where
  "is_space c \<longleftrightarrow>
     c = 0x0009 \<or> c = 0x000A \<or> c = 0x000B \<or> c = 0x000C \<or> c = 0x000D \<or> c = 0x0020 \<or>
     c = 0x00A0 \<or> c = 0x1680 \<or> (0x2000 \<le> c \<and> c \<le> 0x200A) \<or> c = 0x2028 \<or>
     c = 0x2029 \<or> c = 0x202F \<or> c = 0x205F \<or> c = 0x3000 \<or> c = 0xFEFF"

definition trim :: "jstring \<Rightarrow> jstring" where
  "trim s = rev (dropWhile is_space (rev (dropWhile is_space s)))"

section \<open>Data of the backend\<close>

type_synonym ident = nat

record user_obj =
  u_id :: ident
  u_username :: jstring
  u_email :: jstring
  u_status :: jstring

record message_obj =
  m_id :: ident
  m_senderId :: ident
  m_receiverId :: ident
  m_message :: jstring

section \<open>Requests and responses\<close>

text \<open>
  A call of \<open>fetch\<close> is recorded as a request: method, path below \<open>API_BASE\<close>, headers and
  JSON body. A response is either a rejection of the promise (with the message of the
  error) or the flag \<open>res.ok\<close> together with the parsed body \<open>res.json()\<close>.
\<close>

datatype http_method = GET | POST

datatype endpoint =
  ApiAuthLogin
| ApiAuthRegister
| ApiUsers
| ApiMessagesOf ident
| ApiMessages

datatype json_body =
  NoBody
| LoginBody jstring jstring
| RegisterBody jstring jstring jstring
| SendBody ident jstring

record request =
  r_method :: http_method
  r_url :: endpoint
  r_headers :: "(jstring \<times> jstring) list"
  r_body :: json_body

datatype json =
  JToken jstring
| JUsers "user_obj list"
| JMessages "message_obj list"
| JMessage message_obj

datatype reply = Reply bool json | Rejected jstring

text \<open>
  What awaits a response: the rest of \<open>login\<close> or \<open>register\<close> (and of \<open>submit\<close>, which
  awaits them), of \<open>loadUsers\<close> (whose closure holds the \<open>activeUser\<close> of the render
  that started it), of \<open>load\<close> (with the id of the contact whose messages it asked for), or
  of \<open>send\<close>.
\<close>

datatype kont = KLogin | KRegister | KLoadUsers "user_obj option" | KLoad ident | KSend

section \<open>Component state\<close>

text \<open>The state of one call of the hook \<open>useAuth\<close>; every component has its own.\<close>

record auth =
  token :: jstring
  user :: "user_obj option"

datatype mode = LoginMode | RegisterMode

record auth_screen =
  a_auth :: auth
  mode :: mode
  username :: jstring
  email :: jstring
  password :: jstring
  loading :: bool
  error :: jstring

text \<open>
  JavaScript compares objects by identity, and React does so when it decides whether a
  state has changed. A contact on screen is an object of the array \<open>users\<close>;
  \<open>activeRef\<close> records which of them \<open>activeUser\<close> holds: its position in \<open>users\<close>, or
  \<open>None\<close> when \<open>activeUser\<close> is null or an object that is not in the array.
\<close>

record chat_app =
  c_auth :: auth
  users :: "user_obj list"
  activeUser :: "user_obj option"
  activeRef :: "nat option"
  messages :: "message_obj list"
  text' :: jstring

datatype child = AuthScreen auth_screen | ChatApp chat_app

text \<open>
  The page: the item \<open>token\<close> of \<open>localStorage\<close>, the state of \<open>App\<close> (its own
  \<open>useAuth\<close> and \<open>ready\<close>), the component \<open>App\<close> has mounted (\<open>inst\<close> numbers the
  mounts, so that a continuation knows whether its component is still there), the
  requests in flight with the mount that issued them, and every request sent so far.
\<close>

record state =
  storage :: "jstring option"
  app_auth :: auth
  ready :: bool
  inst :: nat
  child :: child
  inflight :: "(nat \<times> kont) list"
  sent :: "request list"

section \<open>The hook useAuth\<close>

definition useAuth_init :: "jstring option \<Rightarrow> auth" where
  "useAuth_init st = \<lparr>token = (case st of None \<Rightarrow> [] | Some t \<Rightarrow> t), user = None\<rparr>"

definition headers :: "jstring \<Rightarrow> (jstring \<times> jstring) list" where
  "headers tok =
     (js ''Content-Type'', js ''application/json'') #
     (if tok \<noteq> [] then [(js ''Authorization'', js ''Bearer '' @ tok)] else [])"

definition fetch :: "request \<Rightarrow> kont \<Rightarrow> state \<Rightarrow> state" where
  "fetch r k s = s\<lparr>inflight := inflight s @ [(inst s, k)], sent := sent s @ [r]\<rparr>"

definition login :: "jstring \<Rightarrow> jstring \<Rightarrow> state \<Rightarrow> state" where
  "login em pw s =
     fetch \<lparr>r_method = POST, r_url = ApiAuthLogin,
            r_headers = [(js ''Content-Type'', js ''application/json'')],
            r_body = LoginBody em pw\<rparr> KLogin s"

definition register :: "jstring \<Rightarrow> jstring \<Rightarrow> jstring \<Rightarrow> state \<Rightarrow> state" where
  "register un em pw s =
     fetch \<lparr>r_method = POST, r_url = ApiAuthRegister,
            r_headers = [(js ''Content-Type'', js ''application/json'')],
            r_body = RegisterBody un em pw\<rparr> KRegister s"

section \<open>ChatApp\<close>

definition loadUsers_effect :: "chat_app \<Rightarrow> state \<Rightarrow> state" where
  "loadUsers_effect c s =
     (if token (c_auth c) = [] then s
      else fetch \<lparr>r_method = GET, r_url = ApiUsers, r_headers = [], r_body = NoBody\<rparr>
             (KLoadUsers (activeUser c)) s)"

definition load_effect :: "chat_app \<Rightarrow> state \<Rightarrow> state" where
  "load_effect c s =
     (if token (c_auth c) = [] \<or> activeUser c = None then s
      else case activeUser c of
        None \<Rightarrow> s
      | Some a \<Rightarrow>
          fetch \<lparr>r_method = GET, r_url = ApiMessagesOf (u_id a),
                 r_headers = headers (token (c_auth c)), r_body = NoBody\<rparr>
            (KLoad (u_id a)) s)"

text \<open>
  \<open>setActiveUser(u)\<close> for the object \<open>u\<close> at position \<open>i\<close> of \<open>users\<close>. The effect that
  loads the messages has \<open>activeUser\<close> among its dependencies and runs again when the
  state holds another object than before, whatever the fields of the two objects are.
\<close>

definition setActiveUser :: "nat \<Rightarrow> user_obj \<Rightarrow> chat_app \<Rightarrow> state \<Rightarrow> state" where
  "setActiveUser i u c s =
     (let c' = c\<lparr>activeUser := Some u, activeRef := Some i\<rparr>; s' = s\<lparr>child := ChatApp c'\<rparr>
      in if activeRef c = Some i then s' else load_effect c' s')"

definition send :: "chat_app \<Rightarrow> state \<Rightarrow> state" where
  "send c s =
     (if trim (text' c) = [] \<or> activeUser c = None then s
      else case activeUser c of
        None \<Rightarrow> s
      | Some a \<Rightarrow>
          fetch \<lparr>r_method = POST, r_url = ApiMessages,
                 r_headers = headers (token (c_auth c)),
                 r_body = SendBody (u_id a) (text' c)\<rparr> KSend s)"

definition logout :: "chat_app \<Rightarrow> state \<Rightarrow> state" where
  "logout c s =
     (let c' = c\<lparr>c_auth := \<lparr>token = [], user = None\<rparr>\<rparr>;
          s' = s\<lparr>storage := None, child := ChatApp c'\<rparr>
      in if token (c_auth c) \<noteq> [] then load_effect c' (loadUsers_effect c' s') else s')"

section \<open>App\<close>

definition new_auth_screen :: "jstring option \<Rightarrow> auth_screen" where
  "new_auth_screen st =
     \<lparr>a_auth = useAuth_init st, mode = LoginMode, username = [], email = [],
      password = [], loading = False, error = []\<rparr>"

definition new_chat_app :: "jstring option \<Rightarrow> chat_app" where
  "new_chat_app st =
     \<lparr>c_auth = useAuth_init st, users = [], activeUser = None, activeRef = None,
      messages = [], text' = []\<rparr>"

definition mount_auth_screen :: "state \<Rightarrow> state" where
  "mount_auth_screen s =
     s\<lparr>inst := Suc (inst s), child := AuthScreen (new_auth_screen (storage s))\<rparr>"

definition mount_chat_app :: "state \<Rightarrow> state" where
  "mount_chat_app s =
     (let c = new_chat_app (storage s)
      in load_effect c (loadUsers_effect c (s\<lparr>inst := Suc (inst s), child := ChatApp c\<rparr>)))"

text \<open>The test of \<open>App\<close>: \<open>if (!ready || !token) return <AuthScreen />\<close>.\<close>

definition shows_auth :: "state \<Rightarrow> bool" where
  "shows_auth s \<longleftrightarrow> \<not> ready s \<or> token (app_auth s) = []"

definition render_app :: "state \<Rightarrow> state" where
  "render_app s =
     (if shows_auth s
      then (case child s of AuthScreen a \<Rightarrow> s | ChatApp c \<Rightarrow> mount_auth_screen s)
      else (case child s of AuthScreen a \<Rightarrow> mount_chat_app s | ChatApp c \<Rightarrow> s))"

definition setReady :: "bool \<Rightarrow> state \<Rightarrow> state" where
  "setReady b s = (if ready s = b then s else render_app (s\<lparr>ready := b\<rparr>))"

definition app_effect :: "state \<Rightarrow> state" where
  "app_effect s = (if token (app_auth s) \<noteq> [] then setReady True s else s)"

text \<open>
  Loading the page: every \<open>useAuth\<close> reads \<open>localStorage\<close>, \<open>ready\<close> starts as
  \<open>!!token\<close>, \<open>App\<close> mounts the component its test selects, and the effects of the
  first render run. Nothing of an earlier page is in flight.
\<close>

definition load_page :: "jstring option \<Rightarrow> request list \<Rightarrow> state" where
  "load_page st lg =
     (let au = useAuth_init st;
          s0 = \<lparr>storage = st, app_auth = au, ready = (token au \<noteq> []), inst = 0,
                child = AuthScreen (new_auth_screen st), inflight = [], sent = lg\<rparr>
      in app_effect (if shows_auth s0 then mount_auth_screen s0 else mount_chat_app s0))"

section \<open>AuthScreen\<close>

definition submit :: "auth_screen \<Rightarrow> state \<Rightarrow> state" where
  "submit a s =
     (let s' = s\<lparr>child := AuthScreen (a\<lparr>loading := True, error := []\<rparr>)\<rparr>
      in if mode a = LoginMode then login (email a) (password a) s'
         else register (username a) (email a) (password a) s')"

section \<open>Continuations\<close>

text \<open>
  A component that is no longer mounted ignores the updates of its state; the other
  effects of a continuation (\<open>localStorage\<close>, the callback of \<open>App\<close>) happen all the same.
\<close>

definition with_auth_screen :: "nat \<Rightarrow> (auth_screen \<Rightarrow> auth_screen) \<Rightarrow> state \<Rightarrow> state" where
  "with_auth_screen ow f s =
     (case child s of
        AuthScreen a \<Rightarrow> if ow = inst s then s\<lparr>child := AuthScreen (f a)\<rparr> else s
      | ChatApp c \<Rightarrow> s)"

definition with_chat_app :: "nat \<Rightarrow> (chat_app \<Rightarrow> state \<Rightarrow> state) \<Rightarrow> state \<Rightarrow> state" where
  "with_chat_app ow f s =
     (case child s of
        AuthScreen a \<Rightarrow> s
      | ChatApp c \<Rightarrow> if ow = inst s then f c s else s)"

text \<open>The \<open>catch\<close> and \<open>finally\<close> of \<open>submit\<close>.\<close>

definition submit_caught :: "nat \<Rightarrow> jstring \<Rightarrow> state \<Rightarrow> state" where
  "submit_caught ow m s =
     with_auth_screen ow (\<lambda>a. a\<lparr>loading := False\<rparr>)
       (with_auth_screen ow
          (\<lambda>a. a\<lparr>error := (if m \<noteq> [] then m else js ''Something went wrong'')\<rparr>) s)"

text \<open>
  The rest of \<open>login\<close> and \<open>register\<close> after a successful response with
  \<open>access_token\<close> \<open>t\<close>, then \<open>onAuthed()\<close> and the \<open>finally\<close> of \<open>submit\<close>.
\<close>

definition submit_authed :: "nat \<Rightarrow> jstring \<Rightarrow> state \<Rightarrow> state" where
  "submit_authed ow t s =
     with_auth_screen ow (\<lambda>a. a\<lparr>loading := False\<rparr>)
       (setReady True
          (with_auth_screen ow (\<lambda>a. a\<lparr>a_auth := (a_auth a)\<lparr>token := t\<rparr>\<rparr>)
             (s\<lparr>storage := Some t\<rparr>)))"

definition auth_resumed :: "nat \<Rightarrow> jstring \<Rightarrow> reply \<Rightarrow> state \<Rightarrow> state option" where
  "auth_resumed ow failed r s =
     (case r of
        Rejected m \<Rightarrow> Some (submit_caught ow m s)
      | Reply ok data \<Rightarrow>
          if \<not> ok then Some (submit_caught ow failed s)
          else (case data of
                  JToken t \<Rightarrow> Some (submit_authed ow t s)
                | _ \<Rightarrow> None))"

text \<open>
  The rest of \<open>loadUsers\<close>. The body of the response is an array of new objects, so the
  object \<open>activeUser\<close> may hold is none of them; \<open>data[0]\<close> is the one at position 0.
\<close>

definition loadUsers_resumed :: "user_obj option \<Rightarrow> user_obj list \<Rightarrow> chat_app \<Rightarrow> state \<Rightarrow> state" where
  "loadUsers_resumed a0 data c s =
     (let c' = c\<lparr>users := data, activeRef := None\<rparr>; s' = s\<lparr>child := ChatApp c'\<rparr>
      in if a0 = None \<and> data \<noteq> []
         then (case data of [] \<Rightarrow> s' | u # _ \<Rightarrow> setActiveUser 0 u c' s')
         else s')"

definition load_resumed :: "message_obj list \<Rightarrow> chat_app \<Rightarrow> state \<Rightarrow> state" where
  "load_resumed data c s = s\<lparr>child := ChatApp (c\<lparr>messages := data\<rparr>)\<rparr>"

definition send_resumed :: "message_obj \<Rightarrow> chat_app \<Rightarrow> state \<Rightarrow> state" where
  "send_resumed msg c s =
     s\<lparr>child := ChatApp (c\<lparr>messages := messages c @ [msg], text' := []\<rparr>)\<rparr>"

text \<open>
  Resuming a continuation with the response. A rejection outside \<open>submit\<close> is not
  handled and changes nothing; a body of another shape than the continuation reads is
  outside the model.
\<close>

fun resume :: "nat \<Rightarrow> kont \<Rightarrow> reply \<Rightarrow> state \<Rightarrow> state option" where
  "resume ow KLogin r s = auth_resumed ow (js ''Login failed'') r s"
| "resume ow KRegister r s = auth_resumed ow (js ''Register failed'') r s"
| "resume ow k (Rejected m) s = Some s"
| "resume ow (KLoadUsers a0) (Reply ok (JUsers data)) s =
     Some (with_chat_app ow (loadUsers_resumed a0 data) s)"
| "resume ow (KLoad b) (Reply ok (JMessages data)) s =
     Some (with_chat_app ow (load_resumed data) s)"
| "resume ow KSend (Reply ok (JMessage msg)) s =
     Some (with_chat_app ow (send_resumed msg) s)"
| "resume ow k r s = None"

definition settle :: "nat \<Rightarrow> reply \<Rightarrow> state \<Rightarrow> state option" where
  "settle i r s =
     (if i < length (inflight s)
      then resume (fst (inflight s ! i)) (snd (inflight s ! i)) r
             (s\<lparr>inflight := take i (inflight s) @ drop (Suc i) (inflight s)\<rparr>)
      else None)"

section \<open>Events\<close>

text \<open>
  What can happen to the page: the user reloads it, uses a control of the component on
  screen, or the response of the \<open>i\<close>-th request in flight arrives. An event that the
  page on screen does not offer gives \<open>None\<close>.
\<close>

datatype event =
  Reload
| SetMode mode
| SetUsername jstring
| SetEmail jstring
| SetPassword jstring
| Submit
| Logout
| SelectContact nat
| SetText jstring
| Send
| Settle nat reply

fun auth_screen_event :: "event \<Rightarrow> auth_screen \<Rightarrow> state \<Rightarrow> state option" where
  "auth_screen_event (SetMode m) a s = Some (s\<lparr>child := AuthScreen (a\<lparr>mode := m\<rparr>)\<rparr>)"
| "auth_screen_event (SetUsername v) a s =
     (if mode a = RegisterMode then Some (s\<lparr>child := AuthScreen (a\<lparr>username := v\<rparr>)\<rparr>)
      else None)"
| "auth_screen_event (SetEmail v) a s = Some (s\<lparr>child := AuthScreen (a\<lparr>email := v\<rparr>)\<rparr>)"
| "auth_screen_event (SetPassword v) a s = Some (s\<lparr>child := AuthScreen (a\<lparr>password := v\<rparr>)\<rparr>)"
| "auth_screen_event Submit a s = Some (submit a s)"
| "auth_screen_event e a s = None"

fun chat_app_event :: "event \<Rightarrow> chat_app \<Rightarrow> state \<Rightarrow> state option" where
  "chat_app_event Logout c s = Some (logout c s)"
| "chat_app_event (SelectContact i) c s =
     (if i < length (users c) then Some (setActiveUser i (users c ! i) c s) else None)"
| "chat_app_event (SetText v) c s = Some (s\<lparr>child := ChatApp (c\<lparr>text' := v\<rparr>)\<rparr>)"
| "chat_app_event Send c s = Some (send c s)"
| "chat_app_event e c s = None"

fun step :: "event \<Rightarrow> state \<Rightarrow> state option" where
  "step Reload s = Some (load_page (storage s) (sent s))"
| "step (Settle i r) s = settle i r s"
| "step e s =
     (case child s of
        AuthScreen a \<Rightarrow> auth_screen_event e a s
      | ChatApp c \<Rightarrow> chat_app_event e c s)"

fun run :: "event list \<Rightarrow> state \<Rightarrow> state option" where
  "run [] s = Some s"
| "run (e # es) s = (case step e s of None \<Rightarrow> None | Some s' \<Rightarrow> run es s')"

section \<open>Observations and invariants\<close>

text \<open>The calls of the interface that need the bearer token: the messages of a contact and sending.\<close>

definition authenticated :: "request \<Rightarrow> bool" where
  "authenticated r \<longleftrightarrow>
     (case r_url r of ApiMessagesOf uid \<Rightarrow> True | ApiMessages \<Rightarrow> True | _ \<Rightarrow> False)"

definition users_fetches :: "request list \<Rightarrow> nat" where
  "users_fetches rs = length (filter (\<lambda>r. r_url r = ApiUsers) rs)"

text \<open>What the chat view displays: the contact of its header and the list of messages.\<close>

definition displayed :: "state \<Rightarrow> (user_obj option \<times> message_obj list) option" where
  "displayed s =
     (case child s of
        AuthScreen a \<Rightarrow> None
      | ChatApp c \<Rightarrow> Some (activeUser c, messages c))"

text \<open>The paths of the requests sent so far, oldest first.\<close>

definition requested :: "state \<Rightarrow> endpoint list" where
  "requested s = map r_url (sent s)"

text \<open>The request sent last, if any.\<close>

definition last_request :: "state \<Rightarrow> request option" where
  "last_request s = (if sent s = [] then None else Some (last (sent s)))"

definition on_auth_screen :: "state \<Rightarrow> bool" where
  "on_auth_screen s \<longleftrightarrow> (case child s of AuthScreen a \<Rightarrow> True | ChatApp c \<Rightarrow> False)"

text \<open>
  An event keeps the stored token \<open>t\<close> unless it is a logout or the successful response
  of a login or registration with another token.
\<close>

fun keeps_token :: "jstring \<Rightarrow> event \<Rightarrow> bool" where
  "keeps_token t Logout = False"
| "keeps_token t (Settle i (Reply ok (JToken t'))) = (if ok then t' = t else True)"
| "keeps_token t e = True"

text \<open>
  The invariant of a page. Under the auth screen the token of \<open>App\<close> is empty and only
  logins and registrations of this mount are in flight. Under the chat view the token of
  \<open>App\<close> is not empty, only requests of this chat view are in flight, every
  \<open>loadUsers\<close> in flight started with no active contact, and the chat view's token is
  the stored one, or empty after a logout.
\<close>

definition auth_kont :: "nat \<Rightarrow> nat \<times> kont \<Rightarrow> bool" where
  "auth_kont n p \<longleftrightarrow> fst p = n \<and> (snd p = KLogin \<or> snd p = KRegister)"

definition chat_kont :: "nat \<Rightarrow> nat \<times> kont \<Rightarrow> bool" where
  "chat_kont n p \<longleftrightarrow>
     fst p = n \<and>
     (case snd p of KLogin \<Rightarrow> False | KRegister \<Rightarrow> False | KLoadUsers a \<Rightarrow> a = None
      | KLoad b \<Rightarrow> True | KSend \<Rightarrow> True)"

definition consistent :: "state \<Rightarrow> bool" where
  "consistent s \<longleftrightarrow>
     (case child s of
        AuthScreen a \<Rightarrow> token (app_auth s) = [] \<and> list_all (auth_kont (inst s)) (inflight s)
      | ChatApp c \<Rightarrow>
          token (app_auth s) \<noteq> [] \<and> ready s \<and> list_all (chat_kont (inst s)) (inflight s) \<and>
          (if token (c_auth c) = [] then storage s = None
           else storage s = Some (token (c_auth c))))"

section \<open>Invariant of the page\<close>

lemma consistent_load_page: "consistent (load_page st lg)"
  by (cases st)
    (auto simp: load_page_def consistent_def useAuth_init_def shows_auth_def
      mount_auth_screen_def mount_chat_app_def new_auth_screen_def new_chat_app_def
      app_effect_def setReady_def loadUsers_effect_def load_effect_def fetch_def chat_kont_def
      Let_def)

lemma list_all_remove: "list_all P xs \<Longrightarrow> list_all P (take i xs @ drop (Suc i) xs)"
  by (auto simp: list_all_iff dest: in_set_takeD in_set_dropD)

lemma list_all_take: "list_all P xs \<Longrightarrow> list_all P (take i xs)"
  by (auto simp: list_all_iff dest: in_set_takeD)

lemma list_all_drop: "list_all P xs \<Longrightarrow> list_all P (drop i xs)"
  by (auto simp: list_all_iff dest: in_set_dropD)

lemma reply_cases:
  obtains (Rejected) m where "r = Rejected m"
  | (Token) ok t where "r = Reply ok (JToken t)"
  | (Users) ok us where "r = Reply ok (JUsers us)"
  | (Messages) ok ms where "r = Reply ok (JMessages ms)"
  | (Message) ok msg where "r = Reply ok (JMessage msg)"
proof (cases r)
  case (Reply ok j)
  then show ?thesis using that by (cases j) auto
next
  case (Rejected m)
  then show ?thesis using that by auto
qed

lemma list_all_nth: "list_all P xs \<Longrightarrow> i < length xs \<Longrightarrow> P (xs ! i)"
  by (simp add: list_all_length)


lemmas op_defs = submit_def login_def register_def fetch_def logout_def setActiveUser_def
  send_def load_effect_def loadUsers_effect_def

lemma consistent_user_event:
  assumes "consistent s" "e \<noteq> Reload" "\<forall>i r. e \<noteq> Settle i r" "step e s = Some s'"
  shows "consistent s'"
proof (cases "child s")
  case (AuthScreen a)
  with assms show ?thesis
    by (cases e) (auto simp: consistent_def op_defs auth_kont_def Let_def split: if_splits)
next
  case (ChatApp c)
  with assms show ?thesis
    by (cases e) (auto simp: consistent_def op_defs chat_kont_def Let_def split: if_splits option.splits)
qed


lemma consistent_settle:
  assumes "consistent s" "settle i r s = Some s'"
  shows "consistent s'"
proof -
  from assms(2) have i: "i < length (inflight s)"
    by (auto simp: settle_def split: if_splits)
  let ?s1 = "s\<lparr>inflight := take i (inflight s) @ drop (Suc i) (inflight s)\<rparr>"
  have c1: "consistent ?s1"
    using assms(1) by (auto simp: consistent_def list_all_take list_all_drop split: child.splits)
  have r: "resume (fst (inflight s ! i)) (snd (inflight s ! i)) r ?s1 = Some s'"
    using assms(2) i by (simp add: settle_def)
  show ?thesis
  proof (cases "child s")
    case (AuthScreen a)
    with assms(1) i have k: "auth_kont (inst s) (inflight s ! i)"
      by (auto simp: consistent_def list_all_nth)
    with r c1 AuthScreen show ?thesis
      by (auto simp: auth_kont_def consistent_def auth_resumed_def submit_caught_def
          submit_authed_def with_auth_screen_def setReady_def render_app_def shows_auth_def
          split: reply.splits json.splits if_splits)
  next
    case (ChatApp c)
    with assms(1) i have k: "chat_kont (inst s) (inflight s ! i)"
      by (auto simp: consistent_def list_all_nth)
    with r c1 ChatApp show ?thesis
      by (cases "snd (inflight s ! i)"; cases r rule: reply_cases)
        (auto simp: chat_kont_def consistent_def with_chat_app_def loadUsers_resumed_def
          load_resumed_def send_resumed_def setActiveUser_def load_effect_def fetch_def Let_def
          split: json.splits if_splits list.splits)
  qed
qed



lemmas page_defs = load_page_def useAuth_init_def shows_auth_def mount_auth_screen_def
  mount_chat_app_def new_auth_screen_def new_chat_app_def app_effect_def setReady_def
  render_app_def

lemmas resume_defs = auth_resumed_def submit_caught_def submit_authed_def
  with_auth_screen_def with_chat_app_def loadUsers_resumed_def load_resumed_def
  send_resumed_def

lemma consistent_step:
  assumes "consistent s" "step e s = Some s'"
  shows "consistent s'"
proof (cases e)
  case Reload
  with assms show ?thesis by (auto simp: consistent_load_page)
next
  case (Settle i r)
  with assms show ?thesis by (auto simp: consistent_settle)
qed (use assms in \<open>auto intro: consistent_user_event\<close>)

lemma consistent_run: "consistent s \<Longrightarrow> run es s = Some s' \<Longrightarrow> consistent s'"
  by (induction es arbitrary: s) (auto split: option.splits dest: consistent_step)

lemma sent_load_page:
  "sent (load_page st lg) =
     lg @ (if st = None \<or> st = Some [] then []
           else [\<lparr>r_method = GET, r_url = ApiUsers, r_headers = [], r_body = NoBody\<rparr>])"
  by (cases st) (auto simp: page_defs op_defs Let_def)

lemma sent_settle:
  assumes "consistent s" "settle i r s = Some s'"
  shows "sent s' = sent s \<or>
    (\<exists>c r. child s' = ChatApp c \<and> token (c_auth c) \<noteq> [] \<and> storage s' = storage s \<and>
       authenticated r \<and> r_headers r = headers (token (c_auth c)) \<and> sent s' = sent s @ [r])"
proof -
  from assms(2) have i: "i < length (inflight s)"
    by (auto simp: settle_def split: if_splits)
  let ?s1 = "s\<lparr>inflight := take i (inflight s) @ drop (Suc i) (inflight s)\<rparr>"
  have r: "resume (fst (inflight s ! i)) (snd (inflight s ! i)) r ?s1 = Some s'"
    using assms(2) i by (simp add: settle_def)
  show ?thesis
  proof (cases "child s")
    case (AuthScreen a)
    with assms(1) i have k: "auth_kont (inst s) (inflight s ! i)"
      by (auto simp: consistent_def list_all_nth)
    with r assms(1) AuthScreen show ?thesis
      by (auto simp: auth_kont_def consistent_def auth_resumed_def submit_caught_def
          submit_authed_def with_auth_screen_def setReady_def render_app_def shows_auth_def
          split: reply.splits json.splits if_splits)
  next
    case (ChatApp c)
    with assms(1) i have k: "chat_kont (inst s) (inflight s ! i)"
      by (auto simp: consistent_def list_all_nth)
    with r ChatApp show ?thesis
      by (cases "snd (inflight s ! i)"; cases r rule: reply_cases)
        (auto simp: chat_kont_def with_chat_app_def loadUsers_resumed_def
          load_resumed_def send_resumed_def setActiveUser_def load_effect_def fetch_def Let_def
          authenticated_def split: if_splits list.splits)
  qed
qed


lemma sent_user_event:
  assumes "e \<noteq> Reload" "\<forall>i r. e \<noteq> Settle i r" "step e s = Some s'"
  shows "sent s' = sent s \<or>
    (\<exists>r. sent s' = sent s @ [r] \<and>
       (case child s of
          AuthScreen a \<Rightarrow> r_url r = ApiAuthLogin \<or> r_url r = ApiAuthRegister
        | ChatApp c \<Rightarrow> authenticated r \<and> r_headers r = headers (token (c_auth c))))"
proof (cases "child s")
  case (AuthScreen a)
  with assms show ?thesis
    by (cases e) (auto simp: op_defs Let_def split: if_splits)
next
  case (ChatApp c)
  with assms show ?thesis
    by (cases e) (auto simp: op_defs authenticated_def Let_def split: if_splits option.splits)
qed

lemma event_kinds:
  obtains (Reload) "e = Reload" | (Settle) i r where "e = Settle i r"
  | (User) "e \<noteq> Reload" "\<forall>i r. e \<noteq> Settle i r"
  by (cases e) auto

lemma step_bearer:
  assumes "consistent s" "storage s = Some t" "step e s = Some s'"
  shows "\<exists>new. sent s' = sent s @ new \<and>
           (\<forall>r\<in>set new. authenticated r \<longrightarrow> t \<noteq> [] \<and> r_headers r = headers t)"
proof (cases e rule: event_kinds)
  case Reload
  with assms show ?thesis by (auto simp: sent_load_page authenticated_def)
next
  case (Settle i r)
  with assms have st: "settle i r s = Some s'" by simp
  have c': "consistent s'" using assms(1,3) by (rule consistent_step)
  from sent_settle [OF assms(1) st] show ?thesis
  proof
    assume "sent s' = sent s"
    then show ?thesis by simp
  next
    assume "\<exists>c r. child s' = ChatApp c \<and> token (c_auth c) \<noteq> [] \<and> storage s' = storage s \<and>
       authenticated r \<and> r_headers r = headers (token (c_auth c)) \<and> sent s' = sent s @ [r]"
    then obtain c r where *: "child s' = ChatApp c" "token (c_auth c) \<noteq> []"
       "storage s' = storage s" "r_headers r = headers (token (c_auth c))"
       "sent s' = sent s @ [r]"
      by (elim exE conjE) (rule that)
    from c' *(1,2,3) assms(2) have "token (c_auth c) = t"
      by (auto simp: consistent_def)
    with * show ?thesis by auto
  qed
next
  case User
  from sent_user_event [OF User assms(3)] show ?thesis
  proof
    assume "sent s' = sent s"
    then show ?thesis by simp
  next
    assume "\<exists>r. sent s' = sent s @ [r] \<and>
       (case child s of
          AuthScreen a \<Rightarrow> r_url r = ApiAuthLogin \<or> r_url r = ApiAuthRegister
        | ChatApp c \<Rightarrow> authenticated r \<and> r_headers r = headers (token (c_auth c)))"
    then obtain r where r: "sent s' = sent s @ [r]"
      "case child s of
          AuthScreen a \<Rightarrow> r_url r = ApiAuthLogin \<or> r_url r = ApiAuthRegister
        | ChatApp c \<Rightarrow> authenticated r \<and> r_headers r = headers (token (c_auth c))"
      by (elim exE conjE) (rule that)
    show ?thesis
    proof (cases "child s")
      case (AuthScreen a)
      with r show ?thesis by (auto simp: authenticated_def)
    next
      case (ChatApp c)
      with assms(1,2) have "token (c_auth c) = t" "t \<noteq> []"
        by (auto simp: consistent_def split: if_splits)
      with r ChatApp show ?thesis by auto
    qed
  qed
qed

lemma step_keeps_token:
  assumes "consistent s" "storage s = Some t" "keeps_token t e" "step e s = Some s'"
  shows "storage s' = Some t"
proof (cases e rule: event_kinds)
  case Reload
  with assms show ?thesis by (auto simp: page_defs op_defs Let_def)
next
  case (Settle i r)
  with assms have st: "settle i r s = Some s'" by simp
  then have i: "i < length (inflight s)"
    by (auto simp: settle_def split: if_splits)
  let ?s1 = "s\<lparr>inflight := take i (inflight s) @ drop (Suc i) (inflight s)\<rparr>"
  have r: "resume (fst (inflight s ! i)) (snd (inflight s ! i)) r ?s1 = Some s'"
    using st i by (simp add: settle_def)
  show ?thesis
  proof (cases "child s")
    case (AuthScreen a)
    with assms(1) i have k: "auth_kont (inst s) (inflight s ! i)"
      by (auto simp: consistent_def list_all_nth)
    with r assms(1,2,3) AuthScreen Settle show ?thesis
      by (cases r rule: reply_cases)
       (auto simp: auth_kont_def consistent_def auth_resumed_def submit_caught_def
          submit_authed_def with_auth_screen_def setReady_def render_app_def shows_auth_def
          split: if_splits)
  next
    case (ChatApp c)
    with assms(1) i have k: "chat_kont (inst s) (inflight s ! i)"
      by (auto simp: consistent_def list_all_nth)
    with r ChatApp assms(2) show ?thesis
      by (cases "snd (inflight s ! i)"; cases r rule: reply_cases)
        (auto simp: chat_kont_def with_chat_app_def loadUsers_resumed_def
          load_resumed_def send_resumed_def setActiveUser_def load_effect_def fetch_def Let_def
          split: if_splits list.splits)
  qed
next
  case User
  show ?thesis
  proof (cases "child s")
    case (AuthScreen a)
    with assms User show ?thesis
      by (cases e) (auto simp: op_defs Let_def split: if_splits)
  next
    case (ChatApp c)
    with assms User show ?thesis
      by (cases e) (auto simp: op_defs Let_def split: if_splits option.splits)
  qed
qed

lemma run_bearer:
  assumes "run es s = Some s'" "consistent s" "storage s = Some t" "list_all (keeps_token t) es"
  shows "\<exists>new. sent s' = sent s @ new \<and>
           (\<forall>r\<in>set new. authenticated r \<longrightarrow> t \<noteq> [] \<and> r_headers r = headers t)"
  using assms
proof (induction es arbitrary: s)
  case Nil
  then show ?case by simp
next
  case (Cons e es)
  from Cons.prems(1) obtain s1 where s1: "step e s = Some s1" "run es s1 = Some s'"
    by (auto split: option.splits)
  from Cons.prems s1 have c1: "consistent s1" and t1: "storage s1 = Some t"
    by (auto intro: consistent_step step_keeps_token)
  from step_bearer [OF Cons.prems(2,3) s1(1)] obtain n1 where
    n1: "sent s1 = sent s @ n1" "\<forall>r\<in>set n1. authenticated r \<longrightarrow> t \<noteq> [] \<and> r_headers r = headers t"
    by blast
  from Cons.IH [OF s1(2) c1 t1] Cons.prems(4) obtain n2 where
    n2: "sent s' = sent s1 @ n2" "\<forall>r\<in>set n2. authenticated r \<longrightarrow> t \<noteq> [] \<and> r_headers r = headers t"
    by auto
  from n1 n2 have "sent s' = sent s @ (n1 @ n2)" by simp
  moreover from n1 n2 have "\<forall>r\<in>set (n1 @ n2). authenticated r \<longrightarrow> t \<noteq> [] \<and> r_headers r = headers t"
    by auto
  ultimately show ?case by blast
qed

lemma run_append:
  "run (es @ es') s = (case run es s of None \<Rightarrow> None | Some s' \<Rightarrow> run es' s')"
  by (induction es arbitrary: s) (auto split: option.splits)

lemma settle_login_ok:
  assumes "consistent s" "i < length (inflight s)" "snd (inflight s ! i) = KLogin"
  shows "\<exists>s1. step (Settle i (Reply True (JToken t))) s = Some s1 \<and> storage s1 = Some t"
proof (cases "child s")
  case (AuthScreen a)
  with assms show ?thesis
    by (auto simp: settle_def auth_resumed_def submit_authed_def with_auth_screen_def
        setReady_def render_app_def shows_auth_def consistent_def)
next
  case (ChatApp c)
  with assms(1,2) have "chat_kont (inst s) (inflight s ! i)"
    by (auto simp: consistent_def list_all_nth)
  with assms(3) show ?thesis by (simp add: chat_kont_def)
qed

section \<open>Request headers\<close>

text \<open>
  C8. The headers are a function of the token alone. For every token they hold the JSON
  content type; they hold an \<open>Authorization\<close> entry exactly when the token is not the
  empty string, and that entry is \<open>Bearer\<close> followed by the token.
\<close>

theorem headers_of_token:
  "(js ''Content-Type'', js ''application/json'') \<in> set (headers tok) \<and>
   ((js ''Authorization'', js ''Bearer '' @ tok) \<in> set (headers tok) \<longleftrightarrow> tok \<noteq> []) \<and>
   ((js ''Authorization'') \<in> fst ` set (headers tok) \<longleftrightarrow> tok \<noteq> []) \<and>
   map_of (headers tok) (js ''Authorization'') =
     (if tok \<noteq> [] then Some (js ''Bearer '' @ tok) else None)"
  by (simp add: headers_def js_def)

section \<open>Login\<close>

lemma run_keeps_token:
  assumes "run es s = Some s'" "consistent s" "storage s = Some t" "list_all (keeps_token t) es"
  shows "storage s' = Some t"
  using assms
proof (induction es arbitrary: s)
  case Nil
  then show ?case by simp
next
  case (Cons e es)
  from Cons.prems(1) obtain s1 where s1: "step e s = Some s1" "run es s1 = Some s'"
    by (auto split: option.splits)
  from Cons.prems(4) have k: "keeps_token t e" and ks: "list_all (keeps_token t) es"
    by simp_all
  have c1: "consistent s1"
    using Cons.prems(2) s1(1) by (rule consistent_step)
  have t1: "storage s1 = Some t"
    using Cons.prems(2,3) k s1(1) by (rule step_keeps_token)
  from Cons.IH [OF s1(2) c1 t1 ks] show ?case .
qed

lemma chat_token_is_stored:
  assumes "consistent s" "storage s = Some t" "child s = ChatApp c"
  shows "token (c_auth c) = t \<and> t \<noteq> []"
  using assms by (auto simp: consistent_def split: if_splits)

lemma headers_bearer:
  "t \<noteq> [] \<Longrightarrow>
   headers t = [(js ''Content-Type'', js ''application/json''),
                (js ''Authorization'', js ''Bearer '' @ t)]"
  by (simp add: headers_def)

lemma load_page_with_token:
  "t \<noteq> [] \<Longrightarrow>
   \<exists>c. child (load_page (Some t) lg) = ChatApp c \<and> token (c_auth c) = t"
  by (simp add: page_defs op_defs Let_def)

text \<open>
  C1 as stated does not hold. After a login that stored \<open>tok1\<close>, a reload, the loading of
  the contacts and a logout, the chat view is still on screen and a send goes out with
  the content type as its only header. And after a login that stored \<open>tok1\<close>, a logout
  and a second login that stored \<open>tok2\<close>, the request for the messages of a contact
  carries \<open>Bearer tok2\<close>.
\<close>

theorem later_requests_without_first_token:
  "Option.bind
     (run [SetEmail (js ''a@b.com''), SetPassword (js ''x''), Submit,
           Settle 0 (Reply True (JToken (js ''tok1''))), Reload,
           Settle 0 (Reply True (JUsers
             [\<lparr>u_id = 5, u_username = js ''ann'', u_email = js ''ann@b.com'',
               u_status = js ''online''\<rparr>])),
           Settle 0 (Reply True (JMessages [])),
           Logout, SetText (js ''x''), Send] (load_page None []))
     last_request =
   Some \<lparr>r_method = POST, r_url = ApiMessages,
          r_headers = [(js ''Content-Type'', js ''application/json'')],
          r_body = SendBody 5 (js ''x'')\<rparr> \<and>
   Option.bind
     (run [SetEmail (js ''a@b.com''), SetPassword (js ''x''), Submit,
           Settle 0 (Reply True (JToken (js ''tok1''))), Reload, Logout, Reload,
           SetEmail (js ''c@d.com''), SetPassword (js ''y''), Submit,
           Settle 0 (Reply True (JToken (js ''tok2''))), Reload,
           Settle 0 (Reply True (JUsers
             [\<lparr>u_id = 5, u_username = js ''ann'', u_email = js ''ann@b.com'',
               u_status = js ''online''\<rparr>]))] (load_page None []))
     last_request =
   Some \<lparr>r_method = GET, r_url = ApiMessagesOf 5,
          r_headers = [(js ''Content-Type'', js ''application/json''),
                       (js ''Authorization'', js ''Bearer tok2'')],
          r_body = NoBody\<rparr>"
  by code_simp

text \<open>
  C1, amended. In every state the page can reach, when the backend answers a login in
  flight with success and a body whose \<open>access_token\<close> is \<open>t\<close>, the continuation runs and
  the item \<open>token\<close> of \<open>localStorage\<close> holds \<open>t\<close>. From then on, through any further
  events (reloads included) that are neither a logout nor a successful login or
  registration with another token: the item still holds \<open>t\<close>; every request for the
  messages of a contact and every request that sends a message has exactly the content
  type and \<open>Authorization: Bearer t\<close> as its headers; a reload mounts the chat view with
  the token \<open>t\<close> if \<open>t\<close> is not empty; and whenever the chat view is on screen, a send
  with text that is not blank and an active contact, and the selection of a contact that
  is not the active one, do send such a request.
\<close>

theorem login_token_persisted_and_attached:
  assumes "run es (load_page st lg) = Some s"
    and "i < length (inflight s)"
    and "snd (inflight s ! i) = KLogin"
  shows "\<exists>s1. step (Settle i (Reply True (JToken t))) s = Some s1 \<and>
           storage s1 = Some t \<and>
           (\<forall>es' s2. list_all (keeps_token t) es' \<and> run es' s1 = Some s2 \<longrightarrow>
              storage s2 = Some t \<and>
              (\<exists>new. sent s2 = sent s1 @ new \<and>
                 (\<forall>r\<in>set new. authenticated r \<longrightarrow>
                    r_headers r = [(js ''Content-Type'', js ''application/json''),
                                   (js ''Authorization'', js ''Bearer '' @ t)])) \<and>
              (t \<noteq> [] \<longrightarrow>
                 (\<exists>s3 c3. step Reload s2 = Some s3 \<and> child s3 = ChatApp c3 \<and>
                    token (c_auth c3) = t)) \<and>
              (\<forall>c a. child s2 = ChatApp c \<and> trim (text' c) \<noteq> [] \<and> activeUser c = Some a \<longrightarrow>
                 step Send s2 =
                   Some (s2\<lparr>inflight := inflight s2 @ [(inst s2, KSend)],
                           sent := sent s2 @
                             [\<lparr>r_method = POST, r_url = ApiMessages,
                               r_headers = [(js ''Content-Type'', js ''application/json''),
                                            (js ''Authorization'', js ''Bearer '' @ t)],
                               r_body = SendBody (u_id a) (text' c)\<rparr>]\<rparr>)) \<and>
              (\<forall>c j. child s2 = ChatApp c \<and> j < length (users c) \<and> activeRef c \<noteq> Some j \<longrightarrow>
                 (\<exists>s3. step (SelectContact j) s2 = Some s3 \<and>
                    sent s3 = sent s2 @
                      [\<lparr>r_method = GET, r_url = ApiMessagesOf (u_id (users c ! j)),
                        r_headers = [(js ''Content-Type'', js ''application/json''),
                                     (js ''Authorization'', js ''Bearer '' @ t)],
                        r_body = NoBody\<rparr>])))"
proof -
  have c: "consistent s"
    using consistent_load_page assms(1) by (rule consistent_run)
  from settle_login_ok [OF c assms(2,3)] obtain s1 where
    s1: "step (Settle i (Reply True (JToken t))) s = Some s1" "storage s1 = Some t"
    by blast
  have c1: "consistent s1" using c s1(1) by (rule consistent_step)
  have later: "storage s2 = Some t \<and>
      (\<exists>new. sent s2 = sent s1 @ new \<and>
         (\<forall>r\<in>set new. authenticated r \<longrightarrow>
            r_headers r = [(js ''Content-Type'', js ''application/json''),
                           (js ''Authorization'', js ''Bearer '' @ t)])) \<and>
      (t \<noteq> [] \<longrightarrow>
         (\<exists>s3 c3. step Reload s2 = Some s3 \<and> child s3 = ChatApp c3 \<and>
            token (c_auth c3) = t)) \<and>
      (\<forall>c a. child s2 = ChatApp c \<and> trim (text' c) \<noteq> [] \<and> activeUser c = Some a \<longrightarrow>
         step Send s2 =
           Some (s2\<lparr>inflight := inflight s2 @ [(inst s2, KSend)],
                   sent := sent s2 @
                     [\<lparr>r_method = POST, r_url = ApiMessages,
                       r_headers = [(js ''Content-Type'', js ''application/json''),
                                    (js ''Authorization'', js ''Bearer '' @ t)],
                       r_body = SendBody (u_id a) (text' c)\<rparr>]\<rparr>)) \<and>
      (\<forall>c j. child s2 = ChatApp c \<and> j < length (users c) \<and> activeRef c \<noteq> Some j \<longrightarrow>
         (\<exists>s3. step (SelectContact j) s2 = Some s3 \<and>
            sent s3 = sent s2 @
              [\<lparr>r_method = GET, r_url = ApiMessagesOf (u_id (users c ! j)),
                r_headers = [(js ''Content-Type'', js ''application/json''),
                             (js ''Authorization'', js ''Bearer '' @ t)],
                r_body = NoBody\<rparr>]))"
    if k: "list_all (keeps_token t) es'" and r: "run es' s1 = Some s2" for es' s2
  proof (intro conjI allI impI)
    show t2: "storage s2 = Some t"
      using r c1 s1(2) k by (rule run_keeps_token)
    have c2: "consistent s2" using c1 r by (rule consistent_run)
    from run_bearer [OF r c1 s1(2) k] obtain new where
      new: "sent s2 = sent s1 @ new"
        "\<forall>r\<in>set new. authenticated r \<longrightarrow> t \<noteq> [] \<and> r_headers r = headers t"
      by blast
    from new(2) have "\<forall>r\<in>set new. authenticated r \<longrightarrow>
        r_headers r = [(js ''Content-Type'', js ''application/json''),
                       (js ''Authorization'', js ''Bearer '' @ t)]"
      by (auto simp: headers_bearer)
    with new(1) show "\<exists>new. sent s2 = sent s1 @ new \<and>
         (\<forall>r\<in>set new. authenticated r \<longrightarrow>
            r_headers r = [(js ''Content-Type'', js ''application/json''),
                           (js ''Authorization'', js ''Bearer '' @ t)])"
      by blast
    show "\<exists>s3 c3. step Reload s2 = Some s3 \<and> child s3 = ChatApp c3 \<and> token (c_auth c3) = t"
      if "t \<noteq> []"
      using load_page_with_token [OF that, of "sent s2"] t2 by simp
    show "step Send s2 =
           Some (s2\<lparr>inflight := inflight s2 @ [(inst s2, KSend)],
                   sent := sent s2 @
                     [\<lparr>r_method = POST, r_url = ApiMessages,
                       r_headers = [(js ''Content-Type'', js ''application/json''),
                                    (js ''Authorization'', js ''Bearer '' @ t)],
                       r_body = SendBody (u_id a) (text' c)\<rparr>]\<rparr>)"
      if "child s2 = ChatApp c \<and> trim (text' c) \<noteq> [] \<and> activeUser c = Some a" for c a
    proof -
      from that chat_token_is_stored [OF c2 t2] have "token (c_auth c) = t" "t \<noteq> []"
        by auto
      with that show ?thesis
        by (simp add: send_def fetch_def headers_bearer)
    qed
    show "\<exists>s3. step (SelectContact j) s2 = Some s3 \<and>
            sent s3 = sent s2 @
              [\<lparr>r_method = GET, r_url = ApiMessagesOf (u_id (users c ! j)),
                r_headers = [(js ''Content-Type'', js ''application/json''),
                             (js ''Authorization'', js ''Bearer '' @ t)],
                r_body = NoBody\<rparr>]"
      if "child s2 = ChatApp c \<and> j < length (users c) \<and> activeRef c \<noteq> Some j" for c j
    proof -
      from that chat_token_is_stored [OF c2 t2] have "token (c_auth c) = t" "t \<noteq> []"
        by auto
      with that show ?thesis
        by (simp add: setActiveUser_def load_effect_def fetch_def headers_bearer)
    qed
  qed
  from s1 later show ?thesis by blast
qed

theorem login_token_persisted_and_attached_witness:
  "map_option storage
     (run [SetEmail (js ''a@b.com''), SetPassword (js ''x''), Submit,
           Settle 0 (Reply True (JToken (js ''tok1'')))] (load_page None []))
     = Some (Some (js ''tok1'')) \<and>
   map_option sent
     (run [SetEmail (js ''a@b.com''), SetPassword (js ''x''), Submit,
           Settle 0 (Reply True (JToken (js ''tok1''))), Reload,
           Settle 0 (Reply True (JUsers
             [\<lparr>u_id = 5, u_username = js ''ann'', u_email = js ''ann@b.com'',
               u_status = js ''online''\<rparr>])),
           Settle 0 (Reply True (JMessages [])),
           SetText (js ''hi''), Send] (load_page None []))
     = Some [\<lparr>r_method = POST, r_url = ApiAuthLogin,
              r_headers = [(js ''Content-Type'', js ''application/json'')],
              r_body = LoginBody (js ''a@b.com'') (js ''x'')\<rparr>,
             \<lparr>r_method = GET, r_url = ApiUsers, r_headers = [], r_body = NoBody\<rparr>,
             \<lparr>r_method = GET, r_url = ApiMessagesOf 5,
              r_headers = [(js ''Content-Type'', js ''application/json''),
                           (js ''Authorization'', js ''Bearer tok1'')],
              r_body = NoBody\<rparr>,
             \<lparr>r_method = POST, r_url = ApiMessages,
              r_headers = [(js ''Content-Type'', js ''application/json''),
                           (js ''Authorization'', js ''Bearer tok1'')],
              r_body = SendBody 5 (js ''hi'')\<rparr>]"
proof -
  let ?l = "load_page None []"
  let ?ann = "\<lparr>u_id = 5, u_username = js ''ann'', u_email = js ''ann@b.com'',
               u_status = js ''online''\<rparr>"
  let ?es = "[SetEmail (js ''a@b.com''), SetPassword (js ''x''), Submit]"
  let ?ok = "Settle 0 (Reply True (JToken (js ''tok1'')))"
  let ?es' = "[Reload, Settle 0 (Reply True (JUsers [?ann])),
               Settle 0 (Reply True (JMessages [])), SetText (js ''hi'')]"
  define sA where "sA = the (run ?es ?l)"
  define sB where "sB = the (step ?ok sA)"
  define sC where "sC = the (run ?es' sB)"
  define cC where "cC = (case child sC of ChatApp c \<Rightarrow> c)"
  have a: "run ?es ?l = Some sA"
    unfolding sA_def by code_simp
  have b: "0 < length (inflight sA)" "snd (inflight sA ! 0) = KLogin"
    unfolding sA_def by code_simp+
  have sB: "step ?ok sA = Some sB"
    unfolding sB_def sA_def by code_simp
  have sC: "run ?es' sB = Some sC"
    unfolding sC_def sB_def sA_def by code_simp
  have k: "list_all (keeps_token (js ''tok1'')) ?es'"
    by simp
  have d: "child sC = ChatApp cC" "trim (text' cC) \<noteq> []" "activeUser cC = Some ?ann"
    "text' cC = js ''hi''"
    unfolding cC_def sC_def sB_def sA_def by code_simp+
  have e: "sent sC =
     [\<lparr>r_method = POST, r_url = ApiAuthLogin,
       r_headers = [(js ''Content-Type'', js ''application/json'')],
       r_body = LoginBody (js ''a@b.com'') (js ''x'')\<rparr>,
      \<lparr>r_method = GET, r_url = ApiUsers, r_headers = [], r_body = NoBody\<rparr>,
      \<lparr>r_method = GET, r_url = ApiMessagesOf 5,
       r_headers = [(js ''Content-Type'', js ''application/json''),
                    (js ''Authorization'', js ''Bearer tok1'')],
       r_body = NoBody\<rparr>]"
    unfolding sC_def sB_def sA_def by code_simp
  have f: "js ''Bearer '' @ js ''tok1'' = js ''Bearer tok1''"
    by (simp add: js_def)
  from login_token_persisted_and_attached [OF a b, of "js ''tok1''"] sB
  have s1: "storage sB = Some (js ''tok1'')"
    and all: "\<forall>es' s2. list_all (keeps_token (js ''tok1'')) es' \<and> run es' sB = Some s2 \<longrightarrow>
      (\<forall>c a. child s2 = ChatApp c \<and> trim (text' c) \<noteq> [] \<and> activeUser c = Some a \<longrightarrow>
         step Send s2 =
           Some (s2\<lparr>inflight := inflight s2 @ [(inst s2, KSend)],
                   sent := sent s2 @
                     [\<lparr>r_method = POST, r_url = ApiMessages,
                       r_headers = [(js ''Content-Type'', js ''application/json''),
                                    (js ''Authorization'', js ''Bearer '' @ js ''tok1'')],
                       r_body = SendBody (u_id a) (text' c)\<rparr>]\<rparr>))"
    by auto
  from all k sC d have sD: "step Send sC =
     Some (sC\<lparr>inflight := inflight sC @ [(inst sC, KSend)],
             sent := sent sC @
               [\<lparr>r_method = POST, r_url = ApiMessages,
                 r_headers = [(js ''Content-Type'', js ''application/json''),
                              (js ''Authorization'', js ''Bearer '' @ js ''tok1'')],
                 r_body = SendBody (u_id ?ann) (text' cC)\<rparr>]\<rparr>)"
    by blast
  have "run (?es @ [?ok]) ?l = Some sB"
    unfolding run_append a using sB by simp
  with s1 have first: "map_option storage (run (?es @ [?ok]) ?l) = Some (Some (js ''tok1''))"
    by simp
  have "run (?es @ [?ok] @ ?es' @ [Send]) ?l =
     Some (sC\<lparr>inflight := inflight sC @ [(inst sC, KSend)],
             sent := sent sC @
               [\<lparr>r_method = POST, r_url = ApiMessages,
                 r_headers = [(js ''Content-Type'', js ''application/json''),
                              (js ''Authorization'', js ''Bearer '' @ js ''tok1'')],
                 r_body = SendBody (u_id ?ann) (text' cC)\<rparr>]\<rparr>)"
    unfolding run_append a using sB sC sD by simp
  then have second: "map_option sent (run (?es @ [?ok] @ ?es' @ [Send]) ?l) =
     Some (sent sC @
               [\<lparr>r_method = POST, r_url = ApiMessages,
                 r_headers = [(js ''Content-Type'', js ''application/json''),
                              (js ''Authorization'', js ''Bearer tok1'')],
                 r_body = SendBody 5 (js ''hi'')\<rparr>])"
    using d(4) f by simp
  from first second show ?thesis
    unfolding e by simp
qed

section \<open>Sending a message\<close>

lemma dropWhile_all: "(\<forall>x\<in>set (dropWhile P xs). P x) \<longleftrightarrow> (\<forall>x\<in>set xs. P x)"
  by (induction xs) auto

lemma trim_empty_iff: "trim t = [] \<longleftrightarrow> list_all is_space t"
  by (simp add: trim_def dropWhile_eq_Nil_conv dropWhile_all list_all_iff)

text \<open>
  C5. In the chat view, submitting the message form while the input is empty or holds
  only white space, or while no contact is active, leaves the whole page as it is: no
  request is sent, none is in flight, and the displayed list is the same.
\<close>

theorem blank_send_is_noop:
  assumes "child s = ChatApp c"
    and "list_all is_space (text' c) \<or> activeUser c = None"
  shows "step Send s = Some s"
  using assms by (auto simp: send_def trim_empty_iff)

theorem blank_send_is_noop_witness:
  "run [Settle 0 (Reply True (JUsers
          [\<lparr>u_id = 5, u_username = js ''ann'', u_email = js ''ann@b.com'',
            u_status = js ''online''\<rparr>])),
        SetText [0x20, 0x09, 0x3000], Send] (load_page (Some (js ''tok1'')) []) =
   run [Settle 0 (Reply True (JUsers
          [\<lparr>u_id = 5, u_username = js ''ann'', u_email = js ''ann@b.com'',
            u_status = js ''online''\<rparr>])),
        SetText [0x20, 0x09, 0x3000]] (load_page (Some (js ''tok1'')) []) \<and>
   step Send (load_page (Some (js ''tok1'')) []) = Some (load_page (Some (js ''tok1'')) [])"
proof -
  let ?es = "[Settle 0 (Reply True (JUsers
          [\<lparr>u_id = 5, u_username = js ''ann'', u_email = js ''ann@b.com'',
            u_status = js ''online''\<rparr>])),
        SetText [0x20, 0x09, 0x3000]]"
  define sA where "sA = the (run ?es (load_page (Some (js ''tok1'')) []))"
  define cA where "cA = (case child sA of ChatApp c \<Rightarrow> c)"
  have a: "run ?es (load_page (Some (js ''tok1'')) []) = Some sA"
    unfolding sA_def by code_simp
  have b: "child sA = ChatApp cA"
    unfolding cA_def sA_def by code_simp
  have c: "list_all is_space (text' cA) \<or> activeUser cA = None"
    unfolding cA_def sA_def by code_simp
  have "run (?es @ [Send]) (load_page (Some (js ''tok1'')) []) = Some sA"
    unfolding run_append a using blank_send_is_noop [OF b c] by simp
  with a have first: "run (?es @ [Send]) (load_page (Some (js ''tok1'')) []) =
     run ?es (load_page (Some (js ''tok1'')) [])"
    by simp
  define sB where "sB = load_page (Some (js ''tok1'')) []"
  define cB where "cB = (case child sB of ChatApp c \<Rightarrow> c)"
  have b': "child sB = ChatApp cB"
    unfolding cB_def sB_def by code_simp
  have c': "list_all is_space (text' cB) \<or> activeUser cB = None"
    unfolding cB_def sB_def by code_simp
  have second: "step Send sB = Some sB"
    using b' c' by (rule blank_send_is_noop)
  from first second show ?thesis unfolding sB_def by simp
qed

text \<open>
  C6. A valid send (text that is not blank, an active contact) only issues the request:
  the chat view, and with it the displayed list, is unchanged. When the response to a
  send arrives, its body is appended at the end of the list displayed at that moment.
  No event of the user changes the list.
\<close>

theorem send_appends_server_message_on_response:
  "(child s = ChatApp c \<and> trim (text' c) \<noteq> [] \<and> activeUser c = Some a \<longrightarrow>
      step Send s =
        Some (s\<lparr>inflight := inflight s @ [(inst s, KSend)],
                sent := sent s @
                  [\<lparr>r_method = POST, r_url = ApiMessages,
                    r_headers = headers (token (c_auth c)),
                    r_body = SendBody (u_id a) (text' c)\<rparr>]\<rparr>)) \<and>
   (child s = ChatApp c \<and> j < length (inflight s) \<and> inflight s ! j = (inst s, KSend) \<longrightarrow>
      step (Settle j (Reply ok (JMessage msg))) s =
        Some (s\<lparr>inflight := take j (inflight s) @ drop (Suc j) (inflight s),
                child := ChatApp (c\<lparr>messages := messages c @ [msg], text' := []\<rparr>)\<rparr>)) \<and>
   (child s = ChatApp c \<and> e \<noteq> Reload \<and> (\<forall>i r. e \<noteq> Settle i r) \<and> step e s = Some s' \<longrightarrow>
      (\<exists>c'. child s' = ChatApp c' \<and> messages c' = messages c))"
proof (intro conjI impI)
  assume "child s = ChatApp c \<and> trim (text' c) \<noteq> [] \<and> activeUser c = Some a"
  then show "step Send s =
        Some (s\<lparr>inflight := inflight s @ [(inst s, KSend)],
                sent := sent s @
                  [\<lparr>r_method = POST, r_url = ApiMessages,
                    r_headers = headers (token (c_auth c)),
                    r_body = SendBody (u_id a) (text' c)\<rparr>]\<rparr>)"
    by (simp add: send_def fetch_def)
next
  assume "child s = ChatApp c \<and> j < length (inflight s) \<and> inflight s ! j = (inst s, KSend)"
  then show "step (Settle j (Reply ok (JMessage msg))) s =
        Some (s\<lparr>inflight := take j (inflight s) @ drop (Suc j) (inflight s),
                child := ChatApp (c\<lparr>messages := messages c @ [msg], text' := []\<rparr>)\<rparr>)"
    by (simp add: settle_def with_chat_app_def send_resumed_def)
next
  assume "child s = ChatApp c \<and> e \<noteq> Reload \<and> (\<forall>i r. e \<noteq> Settle i r) \<and> step e s = Some s'"
  then show "\<exists>c'. child s' = ChatApp c' \<and> messages c' = messages c"
    by (cases e) (auto simp: op_defs Let_def split: if_splits option.splits)
qed

text \<open>
  C10. A valid send transmits the text of the input as it is: the guard trims a copy,
  the body of the request holds the text itself, so white space around the message
  reaches the server.
\<close>

theorem send_transmits_raw_text:
  assumes "child s = ChatApp c" and "trim (text' c) \<noteq> []" and "activeUser c = Some a"
  shows "\<exists>s'. step Send s = Some s' \<and>
           sent s' = sent s @
             [\<lparr>r_method = POST, r_url = ApiMessages, r_headers = headers (token (c_auth c)),
               r_body = SendBody (u_id a) (text' c)\<rparr>]"
  using assms by (simp add: send_def fetch_def)


theorem send_transmits_raw_text_witness:
  "map_option sent
     (run [Settle 0 (Reply True (JUsers
             [\<lparr>u_id = 5, u_username = js ''ann'', u_email = js ''ann@b.com'',
               u_status = js ''online''\<rparr>])),
           Settle 0 (Reply True (JMessages [])),
           SetText (js ''  hi ''), Send] (load_page (Some (js ''tok1'')) [])) =
   Some [\<lparr>r_method = GET, r_url = ApiUsers, r_headers = [], r_body = NoBody\<rparr>,
         \<lparr>r_method = GET, r_url = ApiMessagesOf 5, r_headers = headers (js ''tok1''),
           r_body = NoBody\<rparr>,
         \<lparr>r_method = POST, r_url = ApiMessages, r_headers = headers (js ''tok1''),
           r_body = SendBody 5 (js ''  hi '')\<rparr>] \<and>
   trim (js ''  hi '') = js ''hi''"
proof -
  let ?l = "load_page (Some (js ''tok1'')) []"
  let ?ann = "\<lparr>u_id = 5, u_username = js ''ann'', u_email = js ''ann@b.com'',
               u_status = js ''online''\<rparr>"
  let ?es = "[Settle 0 (Reply True (JUsers [?ann])), Settle 0 (Reply True (JMessages [])),
              SetText (js ''  hi '')]"
  define sA where "sA = the (run ?es ?l)"
  define cA where "cA = (case child sA of ChatApp c \<Rightarrow> c)"
  have a: "run ?es ?l = Some sA"
    unfolding sA_def by code_simp
  have b: "child sA = ChatApp cA"
    unfolding cA_def sA_def by code_simp
  have c: "trim (text' cA) \<noteq> []" "activeUser cA = Some ?ann"
    unfolding cA_def sA_def by code_simp+
  have d: "sent sA =
     [\<lparr>r_method = GET, r_url = ApiUsers, r_headers = [], r_body = NoBody\<rparr>,
      \<lparr>r_method = GET, r_url = ApiMessagesOf 5, r_headers = headers (js ''tok1''),
        r_body = NoBody\<rparr>]"
    "token (c_auth cA) = js ''tok1''" "text' cA = js ''  hi ''"
    unfolding cA_def sA_def by code_simp+
  from send_transmits_raw_text [OF b c] obtain s' where
    s': "step Send sA = Some s'"
      "sent s' = sent sA @
        [\<lparr>r_method = POST, r_url = ApiMessages, r_headers = headers (token (c_auth cA)),
          r_body = SendBody (u_id ?ann) (text' cA)\<rparr>]"
    by (elim exE conjE) (rule that)
  have "run (?es @ [Send]) ?l = Some s'"
    unfolding run_append a using s'(1) by simp
  then have first: "map_option sent (run (?es @ [Send]) ?l) =
     Some [\<lparr>r_method = GET, r_url = ApiUsers, r_headers = [], r_body = NoBody\<rparr>,
         \<lparr>r_method = GET, r_url = ApiMessagesOf 5, r_headers = headers (js ''tok1''),
           r_body = NoBody\<rparr>,
         \<lparr>r_method = POST, r_url = ApiMessages, r_headers = headers (js ''tok1''),
           r_body = SendBody 5 (js ''  hi '')\<rparr>]"
    using s'(2) d by simp
  have second: "trim (js ''  hi '') = js ''hi''"
    by code_simp
  from first second show ?thesis by simp
qed

theorem send_appends_server_message_on_response_witness:
  "map_option displayed
     (run [Settle 0 (Reply True (JUsers
             [\<lparr>u_id = 5, u_username = js ''ann'', u_email = js ''ann@b.com'',
               u_status = js ''online''\<rparr>])),
           Settle 0 (Reply True (JMessages [])),
           SetText (js ''hi''), Send] (load_page (Some (js ''tok1'')) [])) =
   Some (Some (Some \<lparr>u_id = 5, u_username = js ''ann'', u_email = js ''ann@b.com'',
               u_status = js ''online''\<rparr>, [])) \<and>
   map_option displayed
     (run [Settle 0 (Reply True (JUsers
             [\<lparr>u_id = 5, u_username = js ''ann'', u_email = js ''ann@b.com'',
               u_status = js ''online''\<rparr>])),
           Settle 0 (Reply True (JMessages [])),
           SetText (js ''hi''), Send,
           Settle 0 (Reply True (JMessage
             \<lparr>m_id = 1, m_senderId = 9, m_receiverId = 5, m_message = js ''hi''\<rparr>))]
        (load_page (Some (js ''tok1'')) [])) =
   Some (Some (Some \<lparr>u_id = 5, u_username = js ''ann'', u_email = js ''ann@b.com'',
               u_status = js ''online''\<rparr>,
               [\<lparr>m_id = 1, m_senderId = 9, m_receiverId = 5, m_message = js ''hi''\<rparr>]))"
proof -
  let ?l = "load_page (Some (js ''tok1'')) []"
  let ?ann = "\<lparr>u_id = 5, u_username = js ''ann'', u_email = js ''ann@b.com'',
               u_status = js ''online''\<rparr>"
  let ?m = "\<lparr>m_id = 1, m_senderId = 9, m_receiverId = 5, m_message = js ''hi''\<rparr>"
  let ?es = "[Settle 0 (Reply True (JUsers [?ann])), Settle 0 (Reply True (JMessages [])),
              SetText (js ''hi'')]"
  define sA where "sA = the (run ?es ?l)"
  define cA where "cA = (case child sA of ChatApp c \<Rightarrow> c)"
  have a: "run ?es ?l = Some sA"
    unfolding sA_def by code_simp
  have b: "child sA = ChatApp cA"
    unfolding cA_def sA_def by code_simp
  have c: "trim (text' cA) \<noteq> []" "activeUser cA = Some ?ann"
    unfolding cA_def sA_def by code_simp+
  have d: "inflight sA = []" "messages cA = []"
    unfolding cA_def sA_def by code_simp+
  define sB where "sB = sA\<lparr>inflight := inflight sA @ [(inst sA, KSend)],
                sent := sent sA @
                  [\<lparr>r_method = POST, r_url = ApiMessages,
                    r_headers = headers (token (c_auth cA)),
                    r_body = SendBody (u_id ?ann) (text' cA)\<rparr>]\<rparr>"
  note main = send_appends_server_message_on_response
  from main [where s = sA and c = cA and a = ?ann] b c
  have sB: "step Send sA = Some sB"
    unfolding sB_def by blast
  have b2: "child sB = ChatApp cA" "0 < length (inflight sB)"
    "inflight sB ! 0 = (inst sB, KSend)"
    using b d by (simp_all add: sB_def)
  from main [where s = sB and c = cA and j = 0 and ok = True and msg = ?m] b2
  have sC: "step (Settle 0 (Reply True (JMessage ?m))) sB =
     Some (sB\<lparr>inflight := take 0 (inflight sB) @ drop (Suc 0) (inflight sB),
                child := ChatApp (cA\<lparr>messages := messages cA @ [?m], text' := []\<rparr>)\<rparr>)"
    by blast
  have r1: "run (?es @ [Send]) ?l = Some sB"
    unfolding run_append a using sB by simp
  have r2: "run (?es @ [Send, Settle 0 (Reply True (JMessage ?m))]) ?l =
     Some (sB\<lparr>inflight := take 0 (inflight sB) @ drop (Suc 0) (inflight sB),
                child := ChatApp (cA\<lparr>messages := messages cA @ [?m], text' := []\<rparr>)\<rparr>)"
    unfolding run_append a using sB sC by simp
  from r1 r2 show ?thesis
    using b2(1) c(2) d(2) by (simp add: displayed_def)
qed

section \<open>Failed login and registration\<close>

text \<open>
  C2. In every state the page can reach, when the backend answers a login or a
  registration in flight with a status that is not a success, the auth screen stays on
  screen and shows the message \<open>Login failed\<close> or \<open>Register failed\<close>; nothing is written
  to \<open>localStorage\<close>, no token is set, \<open>ready\<close> keeps its value and no request is sent.
\<close>

theorem auth_failure_shows_error:
  assumes "run es (load_page st lg) = Some s"
    and "i < length (inflight s)"
    and "snd (inflight s ! i) = KLogin \<or> snd (inflight s ! i) = KRegister"
  shows "\<exists>a s' a'. child s = AuthScreen a \<and>
           step (Settle i (Reply False body)) s = Some s' \<and>
           child s' = AuthScreen a' \<and> shows_auth s' \<and>
           error a' = (if snd (inflight s ! i) = KLogin then js ''Login failed''
                       else js ''Register failed'') \<and>
           error a' \<noteq> [] \<and>
           storage s' = storage s \<and> a_auth a' = a_auth a \<and>
           app_auth s' = app_auth s \<and> ready s' = ready s \<and> sent s' = sent s"
proof -
  have c: "consistent s"
    using consistent_load_page assms(1) by (rule consistent_run)
  show ?thesis
  proof (cases "child s")
    case (AuthScreen a)
    with c assms(2) have "auth_kont (inst s) (inflight s ! i)"
      by (auto simp: consistent_def list_all_nth)
    with c assms(2,3) AuthScreen show ?thesis
      by (auto simp: settle_def auth_resumed_def submit_caught_def with_auth_screen_def
          auth_kont_def consistent_def shows_auth_def js_def)
  next
    case (ChatApp c')
    with c assms(2) have "chat_kont (inst s) (inflight s ! i)"
      by (auto simp: consistent_def list_all_nth)
    with assms(3) show ?thesis by (auto simp: chat_kont_def)
  qed
qed

theorem auth_failure_shows_error_witness:
  "map_option (\<lambda>s. (storage s, shows_auth s, child s))
     (run [SetMode RegisterMode, SetUsername (js ''ann''), SetEmail (js ''a@b.com''),
           SetPassword (js ''x''), Submit, Settle 0 (Reply False (JToken (js ''tok1'')))]
        (load_page None [])) =
   Some (None, True,
     AuthScreen \<lparr>a_auth = \<lparr>token = [], user = None\<rparr>, mode = RegisterMode,
       username = js ''ann'', email = js ''a@b.com'', password = js ''x'',
       loading = False, error = js ''Register failed''\<rparr>)"
proof -
  let ?es = "[SetMode RegisterMode, SetUsername (js ''ann''), SetEmail (js ''a@b.com''),
           SetPassword (js ''x''), Submit]"
  define sA where "sA = the (run ?es (load_page None []))"
  have a: "run ?es (load_page None []) = Some sA"
    unfolding sA_def by code_simp
  have b: "0 < length (inflight sA)"
    "snd (inflight sA ! 0) = KLogin \<or> snd (inflight sA ! 0) = KRegister"
    unfolding sA_def by code_simp+
  have k: "snd (inflight sA ! 0) \<noteq> KLogin"
    unfolding sA_def by code_simp
  have d: "storage sA = None"
    "child sA = AuthScreen \<lparr>a_auth = \<lparr>token = [], user = None\<rparr>, mode = RegisterMode,
       username = js ''ann'', email = js ''a@b.com'', password = js ''x'',
       loading = True, error = []\<rparr>"
    unfolding sA_def by code_simp+
  have e: "step (Settle 0 (Reply False (JToken (js ''tok1'')))) sA =
     Some (sA\<lparr>inflight := [], child := AuthScreen \<lparr>a_auth = \<lparr>token = [], user = None\<rparr>,
       mode = RegisterMode, username = js ''ann'', email = js ''a@b.com'',
       password = js ''x'', loading = False, error = js ''Register failed''\<rparr>\<rparr>)"
    unfolding sA_def by code_simp
  from auth_failure_shows_error [OF a b, of "JToken (js ''tok1'')"]
  obtain s' a' where s': "step (Settle 0 (Reply False (JToken (js ''tok1'')))) sA = Some s'"
    "child s' = AuthScreen a'" "shows_auth s'" "storage s' = storage sA"
    "error a' = (if snd (inflight sA ! 0) = KLogin then js ''Login failed''
                       else js ''Register failed'')"
    by (elim exE conjE) (rule that)
  have "run (?es @ [Settle 0 (Reply False (JToken (js ''tok1'')))]) (load_page None []) = Some s'"
    unfolding run_append a using s'(1) by simp
  then show ?thesis
    using s' e d by auto
qed

section \<open>The view after a successful login\<close>

text \<open>
  C3. With nothing in \<open>localStorage\<close> the page shows the auth screen. After a login, and
  likewise after a registration, that the backend answers with success and a token, the
  token is stored and \<open>ready\<close> is set, but the token of \<open>App\<close>, which belongs to its own
  call of \<open>useAuth\<close>, is still empty: the test of \<open>App\<close> selects the auth screen again
  and the chat view is not rendered.
\<close>

theorem successful_login_stays_on_auth_screen:
  "on_auth_screen (load_page None []) \<and>
   map_option (\<lambda>s. (storage s, ready s, token (app_auth s), on_auth_screen s))
     (run [SetEmail (js ''a@b.com''), SetPassword (js ''x''), Submit,
           Settle 0 (Reply True (JToken (js ''tok1'')))] (load_page None [])) =
     Some (Some (js ''tok1''), True, [], True) \<and>
   map_option (\<lambda>s. (storage s, ready s, token (app_auth s), on_auth_screen s))
     (run [SetMode RegisterMode, SetUsername (js ''ann''), SetEmail (js ''a@b.com''),
           SetPassword (js ''x''), Submit,
           Settle 0 (Reply True (JToken (js ''tok1'')))] (load_page None [])) =
     Some (Some (js ''tok1''), True, [], True)"
  by code_simp

lemma step_same_view:
  assumes "consistent s" "e \<noteq> Reload" "step e s = Some s'"
  shows "on_auth_screen s' = on_auth_screen s"
proof (cases e rule: event_kinds)
  case Reload
  with assms show ?thesis by simp
next
  case (Settle i r)
  with assms have st: "settle i r s = Some s'" by simp
  then have i: "i < length (inflight s)"
    by (auto simp: settle_def split: if_splits)
  let ?s1 = "s\<lparr>inflight := take i (inflight s) @ drop (Suc i) (inflight s)\<rparr>"
  have r: "resume (fst (inflight s ! i)) (snd (inflight s ! i)) r ?s1 = Some s'"
    using st i by (simp add: settle_def)
  show ?thesis
  proof (cases "child s")
    case (AuthScreen a)
    with assms(1) i have k: "auth_kont (inst s) (inflight s ! i)"
      by (auto simp: consistent_def list_all_nth)
    with r assms(1) AuthScreen show ?thesis
      by (cases r rule: reply_cases)
       (auto simp: auth_kont_def consistent_def auth_resumed_def submit_caught_def
          submit_authed_def with_auth_screen_def setReady_def render_app_def shows_auth_def
          on_auth_screen_def split: if_splits)
  next
    case (ChatApp c)
    with assms(1) i have k: "chat_kont (inst s) (inflight s ! i)"
      by (auto simp: consistent_def list_all_nth)
    with r ChatApp show ?thesis
      by (cases "snd (inflight s ! i)"; cases r rule: reply_cases)
        (auto simp: chat_kont_def with_chat_app_def loadUsers_resumed_def
          load_resumed_def send_resumed_def setActiveUser_def load_effect_def fetch_def Let_def
          on_auth_screen_def split: if_splits list.splits)
  qed
next
  case User
  show ?thesis
  proof (cases "child s")
    case (AuthScreen a)
    with assms User show ?thesis
      by (cases e) (auto simp: op_defs on_auth_screen_def Let_def split: if_splits)
  next
    case (ChatApp c)
    with assms User show ?thesis
      by (cases e) (auto simp: op_defs on_auth_screen_def Let_def split: if_splits option.splits)
  qed
qed

text \<open>
  Between two reloads the page never changes its view: it shows the auth screen exactly
  when the token it found in \<open>localStorage\<close> at load time was absent or empty.
\<close>

lemma view_fixed_until_reload:
  assumes "run es s = Some s'" "consistent s" "Reload \<notin> set es"
  shows "on_auth_screen s' = on_auth_screen s"
  using assms
proof (induction es arbitrary: s)
  case Nil
  then show ?case by simp
next
  case (Cons e es)
  from Cons.prems(1) obtain s1 where s1: "step e s = Some s1" "run es s1 = Some s'"
    by (auto split: option.splits)
  have c1: "consistent s1"
    using Cons.prems(2) s1(1) by (rule consistent_step)
  from Cons.prems(3) have e: "e \<noteq> Reload" by auto
  have "on_auth_screen s1 = on_auth_screen s"
    using Cons.prems(2) e s1(1) by (rule step_same_view)
  with Cons.IH [OF s1(2) c1] Cons.prems(3) show ?case by simp
qed


section \<open>Switching the contact\<close>

text \<open>
  C4 as stated does not hold. With the contacts ann and bob loaded, ann active and her
  history (one message) on screen, selecting bob puts bob in the header while the list
  still holds the message of ann's history; the request for bob's history is in flight.
\<close>

theorem stale_messages_under_new_header:
  "map_option displayed
     (run [Settle 0 (Reply True (JUsers
             [\<lparr>u_id = 5, u_username = js ''ann'', u_email = js ''ann@b.com'',
               u_status = js ''online''\<rparr>,
              \<lparr>u_id = 7, u_username = js ''bob'', u_email = js ''bob@b.com'',
               u_status = js ''offline''\<rparr>])),
           Settle 0 (Reply True (JMessages
             [\<lparr>m_id = 1, m_senderId = 5, m_receiverId = 9, m_message = js ''hi''\<rparr>])),
           SelectContact 1] (load_page (Some (js ''tok1'')) [])) =
   Some (Some (Some \<lparr>u_id = 7, u_username = js ''bob'', u_email = js ''bob@b.com'',
                     u_status = js ''offline''\<rparr>,
               [\<lparr>m_id = 1, m_senderId = 5, m_receiverId = 9, m_message = js ''hi''\<rparr>])) \<and>
   map_option requested
     (run [Settle 0 (Reply True (JUsers
             [\<lparr>u_id = 5, u_username = js ''ann'', u_email = js ''ann@b.com'',
               u_status = js ''online''\<rparr>,
              \<lparr>u_id = 7, u_username = js ''bob'', u_email = js ''bob@b.com'',
               u_status = js ''offline''\<rparr>])),
           Settle 0 (Reply True (JMessages
             [\<lparr>m_id = 1, m_senderId = 5, m_receiverId = 9, m_message = js ''hi''\<rparr>])),
           SelectContact 1] (load_page (Some (js ''tok1'')) [])) =
   Some [ApiUsers, ApiMessagesOf 5, ApiMessagesOf 7]"
  by code_simp

text \<open>
  C4, amended. Selecting a contact that is not the active one puts it in the header and
  leaves the displayed list as it is; the list is not cleared. If the chat view holds a
  token, the selection sends the request for the messages of that contact with the
  headers of the token; if it holds none, nothing is sent. In every state the page can
  reach, when the response to a request for messages in flight arrives, at whatever
  moment, the displayed list becomes the body of the response and the header stays.
\<close>

theorem switch_leaves_list_history_replaces_it:
  "(child s = ChatApp c \<and> i < length (users c) \<and> activeRef c \<noteq> Some i \<longrightarrow>
      (\<exists>s1. step (SelectContact i) s = Some s1 \<and>
         displayed s1 = Some (Some (users c ! i), messages c) \<and>
         (if token (c_auth c) = []
          then sent s1 = sent s \<and> inflight s1 = inflight s
          else sent s1 = sent s @
                 [\<lparr>r_method = GET, r_url = ApiMessagesOf (u_id (users c ! i)),
                   r_headers = headers (token (c_auth c)), r_body = NoBody\<rparr>] \<and>
               inflight s1 = inflight s @ [(inst s, KLoad (u_id (users c ! i)))]))) \<and>
   (run es (load_page st lg) = Some s' \<and> j < length (inflight s') \<and>
    snd (inflight s' ! j) = KLoad b \<longrightarrow>
      (\<exists>c' s2. child s' = ChatApp c' \<and>
         step (Settle j (Reply ok (JMessages data))) s' = Some s2 \<and>
         displayed s2 = Some (activeUser c', data) \<and>
         inflight s2 = take j (inflight s') @ drop (Suc j) (inflight s') \<and>
         sent s2 = sent s'))"
proof (intro conjI impI)
  assume "child s = ChatApp c \<and> i < length (users c) \<and> activeRef c \<noteq> Some i"
  then show "\<exists>s1. step (SelectContact i) s = Some s1 \<and>
         displayed s1 = Some (Some (users c ! i), messages c) \<and>
         (if token (c_auth c) = []
          then sent s1 = sent s \<and> inflight s1 = inflight s
          else sent s1 = sent s @
                 [\<lparr>r_method = GET, r_url = ApiMessagesOf (u_id (users c ! i)),
                   r_headers = headers (token (c_auth c)), r_body = NoBody\<rparr>] \<and>
               inflight s1 = inflight s @ [(inst s, KLoad (u_id (users c ! i)))])"
    by (simp add: setActiveUser_def load_effect_def fetch_def displayed_def)
next
  assume h: "run es (load_page st lg) = Some s' \<and> j < length (inflight s') \<and>
    snd (inflight s' ! j) = KLoad b"
  then have c: "consistent s'"
    using consistent_load_page consistent_run by blast
  show "\<exists>c' s2. child s' = ChatApp c' \<and>
         step (Settle j (Reply ok (JMessages data))) s' = Some s2 \<and>
         displayed s2 = Some (activeUser c', data) \<and>
         inflight s2 = take j (inflight s') @ drop (Suc j) (inflight s') \<and>
         sent s2 = sent s'"
  proof (cases "child s'")
    case (AuthScreen a)
    with c h have "auth_kont (inst s') (inflight s' ! j)"
      by (auto simp: consistent_def list_all_nth)
    with h show ?thesis by (simp add: auth_kont_def)
  next
    case (ChatApp c')
    with c h have "chat_kont (inst s') (inflight s' ! j)"
      by (auto simp: consistent_def list_all_nth)
    with h ChatApp show ?thesis
      by (simp add: chat_kont_def settle_def with_chat_app_def load_resumed_def displayed_def)
  qed
qed

theorem switch_leaves_list_history_replaces_it_witness:
  "map_option displayed
     (run [Settle 0 (Reply True (JUsers
             [\<lparr>u_id = 5, u_username = js ''ann'', u_email = js ''ann@b.com'',
               u_status = js ''online''\<rparr>,
              \<lparr>u_id = 7, u_username = js ''bob'', u_email = js ''bob@b.com'',
               u_status = js ''offline''\<rparr>])),
           Settle 0 (Reply True (JMessages
             [\<lparr>m_id = 1, m_senderId = 5, m_receiverId = 9, m_message = js ''hi''\<rparr>])),
           SelectContact 1] (load_page (Some (js ''tok1'')) [])) =
   Some (Some (Some \<lparr>u_id = 7, u_username = js ''bob'', u_email = js ''bob@b.com'',
                     u_status = js ''offline''\<rparr>,
               [\<lparr>m_id = 1, m_senderId = 5, m_receiverId = 9, m_message = js ''hi''\<rparr>])) \<and>
   map_option inflight
     (run [Settle 0 (Reply True (JUsers
             [\<lparr>u_id = 5, u_username = js ''ann'', u_email = js ''ann@b.com'',
               u_status = js ''online''\<rparr>,
              \<lparr>u_id = 7, u_username = js ''bob'', u_email = js ''bob@b.com'',
               u_status = js ''offline''\<rparr>])),
           Settle 0 (Reply True (JMessages
             [\<lparr>m_id = 1, m_senderId = 5, m_receiverId = 9, m_message = js ''hi''\<rparr>])),
           SelectContact 1] (load_page (Some (js ''tok1'')) [])) =
   Some [(1, KLoad 7)] \<and>
   map_option displayed
     (run [Settle 0 (Reply True (JUsers
             [\<lparr>u_id = 5, u_username = js ''ann'', u_email = js ''ann@b.com'',
               u_status = js ''online''\<rparr>,
              \<lparr>u_id = 7, u_username = js ''bob'', u_email = js ''bob@b.com'',
               u_status = js ''offline''\<rparr>])),
           Settle 0 (Reply True (JMessages
             [\<lparr>m_id = 1, m_senderId = 5, m_receiverId = 9, m_message = js ''hi''\<rparr>])),
           SelectContact 1, SetText (js ''yo''),
           Settle 0 (Reply True (JMessages
             [\<lparr>m_id = 2, m_senderId = 7, m_receiverId = 9, m_message = js ''yo''\<rparr>]))]
        (load_page (Some (js ''tok1'')) [])) =
   Some (Some (Some \<lparr>u_id = 7, u_username = js ''bob'', u_email = js ''bob@b.com'',
                     u_status = js ''offline''\<rparr>,
               [\<lparr>m_id = 2, m_senderId = 7, m_receiverId = 9, m_message = js ''yo''\<rparr>])) \<and>
   map_option requested
     (run [Settle 0 (Reply True (JUsers
             [\<lparr>u_id = 5, u_username = js ''ann'', u_email = js ''ann@b.com'',
               u_status = js ''online''\<rparr>,
              \<lparr>u_id = 7, u_username = js ''bob'', u_email = js ''bob@b.com'',
               u_status = js ''offline''\<rparr>])),
           Settle 0 (Reply True (JMessages
             [\<lparr>m_id = 1, m_senderId = 5, m_receiverId = 9, m_message = js ''hi''\<rparr>])),
           Logout, SelectContact 1] (load_page (Some (js ''tok1'')) [])) =
   Some [ApiUsers, ApiMessagesOf 5] \<and>
   map_option displayed
     (run [Settle 0 (Reply True (JUsers
             [\<lparr>u_id = 5, u_username = js ''ann'', u_email = js ''ann@b.com'',
               u_status = js ''online''\<rparr>,
              \<lparr>u_id = 7, u_username = js ''bob'', u_email = js ''bob@b.com'',
               u_status = js ''offline''\<rparr>])),
           Settle 0 (Reply True (JMessages
             [\<lparr>m_id = 1, m_senderId = 5, m_receiverId = 9, m_message = js ''hi''\<rparr>])),
           Logout, SelectContact 1] (load_page (Some (js ''tok1'')) [])) =
   Some (Some (Some \<lparr>u_id = 7, u_username = js ''bob'', u_email = js ''bob@b.com'',
                     u_status = js ''offline''\<rparr>,
               [\<lparr>m_id = 1, m_senderId = 5, m_receiverId = 9, m_message = js ''hi''\<rparr>]))"
proof -
  let ?l = "load_page (Some (js ''tok1'')) []"
  let ?bob = "\<lparr>u_id = 7, u_username = js ''bob'', u_email = js ''bob@b.com'',
               u_status = js ''offline''\<rparr>"
  let ?m1 = "\<lparr>m_id = 1, m_senderId = 5, m_receiverId = 9, m_message = js ''hi''\<rparr>"
  let ?m2 = "\<lparr>m_id = 2, m_senderId = 7, m_receiverId = 9, m_message = js ''yo''\<rparr>"
  let ?es = "[Settle 0 (Reply True (JUsers
             [\<lparr>u_id = 5, u_username = js ''ann'', u_email = js ''ann@b.com'',
               u_status = js ''online''\<rparr>, ?bob])),
           Settle 0 (Reply True (JMessages [?m1]))]"
  note main = switch_leaves_list_history_replaces_it
  define sA where "sA = the (run ?es ?l)"
  define cA where "cA = (case child sA of ChatApp c \<Rightarrow> c)"
  have a: "run ?es ?l = Some sA"
    unfolding sA_def by code_simp
  have b: "child sA = ChatApp cA" "1 < length (users cA)" "activeRef cA \<noteq> Some 1"
    "token (c_auth cA) \<noteq> []"
    unfolding cA_def sA_def by code_simp+
  have d: "inflight sA = []" "inst sA = 1" "users cA ! 1 = ?bob" "messages cA = [?m1]"
    unfolding cA_def sA_def by code_simp+
  from main [where s = sA and c = cA and i = 1] b
  obtain s1 where s1: "step (SelectContact 1) sA = Some s1"
    "displayed s1 = Some (Some (users cA ! 1), messages cA)"
    "inflight s1 = inflight sA @ [(inst sA, KLoad (u_id (users cA ! 1)))]"
    by auto
  have r1: "run (?es @ [SelectContact 1]) ?l = Some s1"
    unfolding run_append a using s1(1) by simp
  have first: "map_option displayed (run (?es @ [SelectContact 1]) ?l) =
     Some (Some (Some ?bob, [?m1]))"
    unfolding r1 using s1(2) d by simp
  have second: "map_option inflight (run (?es @ [SelectContact 1]) ?l) = Some [(1, KLoad 7)]"
    unfolding r1 using s1(3) d by simp
  define sB where "sB = the (run (?es @ [SelectContact 1, SetText (js ''yo'')]) ?l)"
  define cB where "cB = (case child sB of ChatApp c \<Rightarrow> c)"
  have a': "run (?es @ [SelectContact 1, SetText (js ''yo'')]) ?l = Some sB"
    unfolding sB_def by code_simp
  have b': "0 < length (inflight sB)" "snd (inflight sB ! 0) = KLoad 7"
    unfolding sB_def by code_simp+
  have d': "child sB = ChatApp cB" "activeUser cB = Some ?bob"
    unfolding cB_def sB_def by code_simp+
  from main [where s' = sB and j = 0 and b = 7 and ok = True and data = "[?m2]"
      and es = "?es @ [SelectContact 1, SetText (js ''yo'')]" and st = "Some (js ''tok1'')"
      and lg = "[]", THEN conjunct2]
    a' b'
  obtain c' s2 where s2: "child sB = ChatApp c'"
    "step (Settle 0 (Reply True (JMessages [?m2]))) sB = Some s2"
    "displayed s2 = Some (activeUser c', [?m2])"
    by blast
  from s2(1) d' have "activeUser c' = Some ?bob" by simp
  with s2(3) have disp: "displayed s2 = Some (Some ?bob, [?m2])" by simp
  have "run ((?es @ [SelectContact 1, SetText (js ''yo'')]) @
          [Settle 0 (Reply True (JMessages [?m2]))]) ?l = Some s2"
    unfolding run_append [of "?es @ [SelectContact 1, SetText (js ''yo'')]"] a'
    using s2(2) by simp
  with disp have third: "map_option displayed
     (run ((?es @ [SelectContact 1, SetText (js ''yo'')]) @
          [Settle 0 (Reply True (JMessages [?m2]))]) ?l) = Some (Some (Some ?bob, [?m2]))"
    by simp
  define sL where "sL = the (run (?es @ [Logout]) ?l)"
  define cL where "cL = (case child sL of ChatApp c \<Rightarrow> c)"
  have aL: "run (?es @ [Logout]) ?l = Some sL"
    unfolding sL_def by code_simp
  have bL: "child sL = ChatApp cL" "1 < length (users cL)" "activeRef cL \<noteq> Some 1"
    unfolding cL_def sL_def by code_simp+
  have dL: "token (c_auth cL) = []" "users cL ! 1 = ?bob" "messages cL = [?m1]"
    "requested sL = [ApiUsers, ApiMessagesOf 5]"
    unfolding cL_def sL_def by code_simp+
  from main [where s = sL and c = cL and i = 1] bL dL(1)
  obtain s1L where s1L: "step (SelectContact 1) sL = Some s1L"
    "displayed s1L = Some (Some (users cL ! 1), messages cL)"
    "sent s1L = sent sL"
    by auto
  have rL: "run ((?es @ [Logout]) @ [SelectContact 1]) ?l = Some s1L"
    unfolding run_append [of "?es @ [Logout]"] aL using s1L(1) by simp
  have fourth: "map_option requested (run ((?es @ [Logout]) @ [SelectContact 1]) ?l) =
     Some [ApiUsers, ApiMessagesOf 5]"
    unfolding rL using s1L(3) dL(4) by (simp add: requested_def)
  have fifth: "map_option displayed (run ((?es @ [Logout]) @ [SelectContact 1]) ?l) =
     Some (Some (Some ?bob, [?m1]))"
    unfolding rL using s1L(2) dL by simp
  from first second third fourth fifth show ?thesis by simp
qed

section \<open>Logout\<close>

lemma step_chat_storage:
  assumes "consistent s" "\<not> on_auth_screen s" "storage s = None" "e \<noteq> Reload"
    "step e s = Some s'"
  shows "storage s' = None"
proof -
  from assms(2) obtain c where ChatApp: "child s = ChatApp c"
    by (cases "child s") (auto simp: on_auth_screen_def)
  show ?thesis
  proof (cases e rule: event_kinds)
    case Reload
    with assms show ?thesis by simp
  next
    case (Settle i r)
    with assms have st: "settle i r s = Some s'" by simp
    then have i: "i < length (inflight s)"
      by (auto simp: settle_def split: if_splits)
    let ?s1 = "s\<lparr>inflight := take i (inflight s) @ drop (Suc i) (inflight s)\<rparr>"
    have r: "resume (fst (inflight s ! i)) (snd (inflight s ! i)) r ?s1 = Some s'"
      using st i by (simp add: settle_def)
    from ChatApp assms(1) i have k: "chat_kont (inst s) (inflight s ! i)"
      by (auto simp: consistent_def list_all_nth)
    with r ChatApp assms(3) show ?thesis
      by (cases "snd (inflight s ! i)"; cases r rule: reply_cases)
        (auto simp: chat_kont_def with_chat_app_def loadUsers_resumed_def
          load_resumed_def send_resumed_def setActiveUser_def load_effect_def fetch_def Let_def
          split: if_splits list.splits)
  next
    case User
    with assms ChatApp show ?thesis
      by (cases e) (auto simp: op_defs Let_def split: if_splits option.splits)
  qed
qed

lemma run_chat_storage:
  assumes "run es s = Some s'" "consistent s" "\<not> on_auth_screen s" "storage s = None"
    "Reload \<notin> set es"
  shows "storage s' = None"
  using assms
proof (induction es arbitrary: s)
  case Nil
  then show ?case by simp
next
  case (Cons e es)
  from Cons.prems(1) obtain s1 where s1: "step e s = Some s1" "run es s1 = Some s'"
    by (auto split: option.splits)
  from Cons.prems(5) have e: "e \<noteq> Reload" and es: "Reload \<notin> set es" by auto
  have c1: "consistent s1"
    using Cons.prems(2) s1(1) by (rule consistent_step)
  have "on_auth_screen s1 = on_auth_screen s"
    using Cons.prems(2) e s1(1) by (rule step_same_view)
  with Cons.prems(3) have v1: "\<not> on_auth_screen s1" by simp
  have t1: "storage s1 = None"
    using Cons.prems(2,3,4) e s1(1) by (rule step_chat_storage)
  from Cons.IH [OF s1(2) c1 v1 t1 es] show ?case .
qed

lemma load_page_without_token:
  "on_auth_screen (load_page None lg) \<and> shows_auth (load_page None lg)"
  by (simp add: page_defs on_auth_screen_def Let_def)

text \<open>
  What a logout does in every state the page can reach with the chat view on screen: it
  empties the token of the chat view's \<open>useAuth\<close>, sets its user to null and removes the
  item from \<open>localStorage\<close>; it sends no request and none is added to those in flight.
  The state of \<open>App\<close> is not touched: its token is still the one the page loaded with,
  so the chat view stays on screen. Whatever happens on the page afterwards, the item
  stays absent, and a reload of the page then renders the auth screen.
\<close>

lemma logout_effect:
  assumes "run es (load_page st lg) = Some s"
    and "child s = ChatApp c"
  shows "\<exists>s1 c1. step Logout s = Some s1 \<and> child s1 = ChatApp c1 \<and>
           token (c_auth c1) = [] \<and> user (c_auth c1) = None \<and> storage s1 = None \<and>
           sent s1 = sent s \<and> inflight s1 = inflight s \<and>
           app_auth s1 = app_auth s \<and> token (app_auth s1) \<noteq> [] \<and>
           (\<forall>es' s2. Reload \<notin> set es' \<and> run es' s1 = Some s2 \<longrightarrow>
              storage s2 = None \<and> \<not> on_auth_screen s2 \<and>
              (\<exists>s3. step Reload s2 = Some s3 \<and> on_auth_screen s3 \<and> shows_auth s3))"
proof -
  have c: "consistent s"
    using consistent_load_page assms(1) by (rule consistent_run)
  define s1 where "s1 = logout c s"
  have st: "step Logout s = Some s1"
    using assms(2) by (simp add: s1_def)
  have c1: "consistent s1" using c st by (rule consistent_step)
  have f: "child s1 = ChatApp (c\<lparr>c_auth := \<lparr>token = [], user = None\<rparr>\<rparr>)"
    "storage s1 = None" "sent s1 = sent s" "inflight s1 = inflight s"
    "app_auth s1 = app_auth s"
    by (simp_all add: s1_def logout_def load_effect_def loadUsers_effect_def Let_def)
  have g: "token (app_auth s1) \<noteq> []"
    using c1 f(1) by (simp add: consistent_def)
  have v: "\<not> on_auth_screen s1"
    using f(1) by (simp add: on_auth_screen_def)
  have later: "storage s2 = None \<and> \<not> on_auth_screen s2 \<and>
      (\<exists>s3. step Reload s2 = Some s3 \<and> on_auth_screen s3 \<and> shows_auth s3)"
    if "Reload \<notin> set es'" "run es' s1 = Some s2" for es' s2
  proof -
    have "storage s2 = None"
      using that(2) c1 v f(2) that(1) by (rule run_chat_storage)
    moreover have "on_auth_screen s2 = on_auth_screen s1"
      using that(2) c1 that(1) by (rule view_fixed_until_reload)
    ultimately show ?thesis using v by (simp add: load_page_without_token)
  qed
  from st f g later show ?thesis by auto
qed

text \<open>
  C7. A page loads with \<open>tok1\<close> in \<open>localStorage\<close>, the contacts and the messages of the
  first one arrive, and the user logs out. The item is removed, the token of the chat
  view is empty and no request was sent by the logout, but the token that \<open>App\<close> holds
  in its own call of \<open>useAuth\<close> is still \<open>tok1\<close>: the token is not cleared from
  memory, the chat view stays on screen, and a message typed there is sent, with the
  content type as its only header. After a reload the auth screen is shown.
\<close>

theorem logout_leaves_token_in_app:
  "map_option (\<lambda>s. (storage s, token (app_auth s), on_auth_screen s, requested s))
     (run [Settle 0 (Reply True (JUsers
             [\<lparr>u_id = 5, u_username = js ''ann'', u_email = js ''ann@b.com'',
               u_status = js ''online''\<rparr>])),
           Settle 0 (Reply True (JMessages [])),
           Logout] (load_page (Some (js ''tok1'')) [])) =
     Some (None, js ''tok1'', False, [ApiUsers, ApiMessagesOf 5]) \<and>
   Option.bind
     (run [Settle 0 (Reply True (JUsers
             [\<lparr>u_id = 5, u_username = js ''ann'', u_email = js ''ann@b.com'',
               u_status = js ''online''\<rparr>])),
           Settle 0 (Reply True (JMessages [])),
           Logout, SetText (js ''x''), Send] (load_page (Some (js ''tok1'')) []))
     last_request =
     Some \<lparr>r_method = POST, r_url = ApiMessages,
            r_headers = [(js ''Content-Type'', js ''application/json'')],
            r_body = SendBody 5 (js ''x'')\<rparr> \<and>
   map_option on_auth_screen
     (run [Settle 0 (Reply True (JUsers
             [\<lparr>u_id = 5, u_username = js ''ann'', u_email = js ''ann@b.com'',
               u_status = js ''online''\<rparr>])),
           Settle 0 (Reply True (JMessages [])),
           Logout, SetText (js ''x''), Send, Reload] (load_page (Some (js ''tok1'')) [])) =
     Some True"
  by code_simp

section \<open>Loading the contacts\<close>

lemma authenticated_not_users: "authenticated r \<Longrightarrow> r_url r \<noteq> ApiUsers"
  by (auto simp: authenticated_def)

lemma step_users_fetches:
  assumes "consistent s" "e \<noteq> Reload" "step e s = Some s'"
  shows "users_fetches (sent s') = users_fetches (sent s)"
proof (cases e rule: event_kinds)
  case Reload
  with assms show ?thesis by simp
next
  case (Settle i r)
  with assms have "settle i r s = Some s'" by simp
  from sent_settle [OF assms(1) this] show ?thesis
    by (auto simp: users_fetches_def dest: authenticated_not_users)
next
  case User
  from sent_user_event [OF User assms(3)] show ?thesis
    by (cases "child s") (auto simp: users_fetches_def dest: authenticated_not_users)
qed

lemma run_users_fetches:
  assumes "run es s = Some s'" "consistent s" "Reload \<notin> set es"
  shows "users_fetches (sent s') = users_fetches (sent s)"
  using assms
proof (induction es arbitrary: s)
  case Nil
  then show ?case by simp
next
  case (Cons e es)
  from Cons.prems(1) obtain s1 where s1: "step e s = Some s1" "run es s1 = Some s'"
    by (auto split: option.splits)
  from Cons.prems(3) have e: "e \<noteq> Reload" and es: "Reload \<notin> set es" by auto
  have c1: "consistent s1"
    using Cons.prems(2) s1(1) by (rule consistent_step)
  have "users_fetches (sent s1) = users_fetches (sent s)"
    using Cons.prems(2) e s1(1) by (rule step_users_fetches)
  with Cons.IH [OF s1(2) c1 es] show ?case by simp
qed

lemma settle_loadUsers:
  assumes "consistent s" "i < length (inflight s)" "snd (inflight s ! i) = KLoadUsers a0"
  shows "a0 = None \<and>
     (\<exists>c s' c'. child s = ChatApp c \<and>
        step (Settle i (Reply ok (JUsers data))) s = Some s' \<and>
        child s' = ChatApp c' \<and> users c' = data \<and>
        activeUser c' = (case data of [] \<Rightarrow> activeUser c | u # us \<Rightarrow> Some u))"
proof (cases "child s")
  case (AuthScreen a)
  with assms(1,2) have "auth_kont (inst s) (inflight s ! i)"
    by (auto simp: consistent_def list_all_nth)
  with assms(3) show ?thesis by (simp add: auth_kont_def)
next
  case (ChatApp c)
  with assms(1,2) have "chat_kont (inst s) (inflight s ! i)"
    by (auto simp: consistent_def list_all_nth)
  with assms(2,3) ChatApp show ?thesis
    by (auto simp: chat_kont_def settle_def with_chat_app_def loadUsers_resumed_def
        setActiveUser_def load_effect_def fetch_def Let_def split: list.splits)
qed

text \<open>
  A page that loads with a token in \<open>localStorage\<close> requests the list of contacts once:
  in every state it reaches before the next reload, exactly one request for the list has
  been sent since the page loaded. Every such request in flight started with no active
  contact; when its response arrives the list of contacts is the body, and its first
  entry becomes the active contact if the body is not empty.
\<close>

lemma hydrated_page_fetches_contacts_once:
  assumes "run es (load_page (Some t) lg) = Some s"
    and "t \<noteq> []"
    and "Reload \<notin> set es"
  shows "users_fetches (sent s) = Suc (users_fetches lg) \<and>
         (\<forall>i a0 ok data.
            i < length (inflight s) \<and> snd (inflight s ! i) = KLoadUsers a0 \<longrightarrow>
            a0 = None \<and>
            (\<exists>c s' c'. child s = ChatApp c \<and>
               step (Settle i (Reply ok (JUsers data))) s = Some s' \<and>
               child s' = ChatApp c' \<and> users c' = data \<and>
               activeUser c' = (case data of [] \<Rightarrow> activeUser c | u # us \<Rightarrow> Some u)))"
proof -
  have c: "consistent s"
    using consistent_load_page assms(1) by (rule consistent_run)
  have "users_fetches (sent s) = users_fetches (sent (load_page (Some t) lg))"
    using assms(1) consistent_load_page assms(3) by (rule run_users_fetches)
  with assms(2) have first: "users_fetches (sent s) = Suc (users_fetches lg)"
    by (simp add: sent_load_page users_fetches_def)
  from first settle_loadUsers [OF c] show ?thesis by blast
qed

text \<open>
  A page that loads without a token never requests the list of contacts before the next
  reload, whatever happens on it, a successful login included.
\<close>

lemma no_contacts_fetched_without_token:
  assumes "run es (load_page st lg) = Some s"
    and "st = None \<or> st = Some []"
    and "Reload \<notin> set es"
  shows "users_fetches (sent s) = users_fetches lg"
proof -
  have "users_fetches (sent s) = users_fetches (sent (load_page st lg))"
    using assms(1) consistent_load_page assms(3) by (rule run_users_fetches)
  with assms(2) show ?thesis
    by (auto simp: sent_load_page)
qed

text \<open>
  C9. A session that is entered by a login: the page loads without a token, the user
  logs in and the backend answers with success and \<open>tok1\<close>. The token is stored, but the
  chat view is not mounted and the list of contacts is not requested, neither then nor
  when the user goes on using the page; the login is the only request sent. A page that
  loads with the token stored does request the list, once, and makes the first contact
  of a list that is not empty the active one.
\<close>

theorem login_session_fetches_no_contacts:
  "map_option (\<lambda>s. (storage s, on_auth_screen s, requested s, users_fetches (sent s)))
     (run [SetEmail (js ''a@b.com''), SetPassword (js ''x''), Submit,
           Settle 0 (Reply True (JToken (js ''tok1''))),
           SetPassword [], SetMode RegisterMode, SetMode LoginMode]
        (load_page None [])) =
     Some (Some (js ''tok1''), True, [ApiAuthLogin], 0) \<and>
   map_option (\<lambda>s. (requested s, users_fetches (sent s), displayed s))
     (run [Settle 0 (Reply True (JUsers
             [\<lparr>u_id = 5, u_username = js ''ann'', u_email = js ''ann@b.com'',
               u_status = js ''online''\<rparr>,
              \<lparr>u_id = 7, u_username = js ''bob'', u_email = js ''bob@b.com'',
               u_status = js ''offline''\<rparr>])),
           SetText (js ''hi'')] (load_page (Some (js ''tok1'')) [])) =
     Some ([ApiUsers, ApiMessagesOf 5], 1,
           Some (Some \<lparr>u_id = 5, u_username = js ''ann'', u_email = js ''ann@b.com'',
                   u_status = js ''online''\<rparr>, []))"
  by code_simp

end
